theory Spec2Isabelle
  imports Complex_Main "HOL-Library.Word" "HOL-Library.AList"
begin

unbundle bit_operations_syntax

section \<open>JavaScript values\<close>

text \<open>
  A JavaScript string is a sequence of 16-bit code units; \<open>length\<close> counts
  code units. String literals of the source are ASCII and are written through \<open>js\<close>.
\<close>

type_synonym cu = "16 word"
type_synonym jsstring = "cu list"

definition ch :: "char \<Rightarrow> cu" where
  "ch c = of_nat (of_char c)"

definition js :: "string \<Rightarrow> jsstring" where
  "js s = map ch s"

text \<open>
  The values the task store handles: what \<open>JSON.parse\<close> can return from the
  persisted entries, plus \<open>undefined\<close> and \<open>NaN\<close>, which callers can pass.
  An object is the list of its own properties in creation order. \<open>JNum\<close> carries
  a finite number (\<open>-0\<close> and \<open>+0\<close> are not told apart; neither does \<open>===\<close>).
\<close>

datatype jsval =
    JUndefined
  | JNull
  | JBool bool
  | JNum real
  | JNaN
  | JStr jsstring
  | JArr "jsval list"
  | JObj "(jsstring \<times> jsval) list"

datatype jstype = TUndefined | TObject | TBoolean | TNumber | TString

fun typeof :: "jsval \<Rightarrow> jstype" where
  "typeof JUndefined = TUndefined"
| "typeof JNull = TObject"
| "typeof (JBool _) = TBoolean"
| "typeof (JNum _) = TNumber"
| "typeof JNaN = TNumber"
| "typeof (JStr _) = TString"
| "typeof (JArr _) = TObject"
| "typeof (JObj _) = TObject"

text \<open>\<open>ToBoolean\<close>: what \<open>!v\<close> and a conditional test.\<close>

fun truthy :: "jsval \<Rightarrow> bool" where
  "truthy JUndefined = False"
| "truthy JNull = False"
| "truthy (JBool b) = b"
| "truthy (JNum x) = (x \<noteq> 0)"
| "truthy JNaN = False"
| "truthy (JStr s) = (s \<noteq> [])"
| "truthy (JArr _) = True"
| "truthy (JObj _) = True"

text \<open>
  Every failure the model functions raise, named as the specification names the kinds;
  \<open>message\<close> gives the text of the \<open>Error\<close> the source throws. \<open>TypeError\<close>
  is the engine's own exception (a property read on \<open>null\<close> or \<open>undefined\<close>,
  a call of something that is not a function, a spread of something not iterable).
\<close>

datatype error =
    InvalidTitle
  | EmptyTitle
  | TitleTooLong
  | NotAnObject
  | MissingId
  | InvalidId
  | InvalidCompletedFlag
  | NotAnArray
  | InvalidTaskAt nat error
  | InvalidFilter
  | TypeError

definition digit_char :: "nat \<Rightarrow> char" where
  "digit_char d = char_of (48 + d)"

fun decimal :: "nat \<Rightarrow> string" where
  "decimal n = (if n < 10 then [digit_char n] else decimal (n div 10) @ [digit_char (n mod 10)])"

declare decimal.simps [simp del]

fun message :: "error \<Rightarrow> string" where
  "message InvalidTitle = ''Task title must be a string''"
| "message EmptyTitle = ''Task title cannot be empty''"
| "message TitleTooLong = ''Task title cannot exceed 500 characters''"
| "message NotAnObject = ''Task must be an object''"
| "message MissingId = ''Task must have a valid id''"
| "message InvalidId = ''Task id must be a valid UUID''"
| "message InvalidCompletedFlag = ''Task completed status must be a boolean''"
| "message NotAnArray = ''Tasks must be an array''"
| "message (InvalidTaskAt i e) = ''Invalid task at index '' @ decimal i @ '': '' @ message e"
| "message InvalidFilter = ''Filter must be one of: all, completed, pending''"
| "message TypeError = ''TypeError''"

text \<open>Sequencing: a raised error ends the computation.\<close>

definition and_then :: "error + 'a \<Rightarrow> ('a \<Rightarrow> error + 'b) \<Rightarrow> error + 'b" where
  "and_then r f = (case r of Inl e \<Rightarrow> Inl e | Inr x \<Rightarrow> f x)"

subsection \<open>Property access\<close>

text \<open>
  The own enumerable properties of a value, as object spread \<open>{...v}\<close> copies them:
  those of an object; the elements of an array and the code units of a string under
  their decimal indices; none for the other primitives.
\<close>

definition indexed :: "'a list \<Rightarrow> (jsstring \<times> 'a) list" where
  "indexed xs = zip (map (\<lambda>i. js (decimal i)) [0..<length xs]) xs"

fun own_props :: "jsval \<Rightarrow> (jsstring \<times> jsval) list" where
  "own_props (JObj ps) = ps"
| "own_props (JArr xs) = indexed xs"
| "own_props (JStr s) = indexed (map (\<lambda>c. JStr [c]) s)"
| "own_props _ = []"

text \<open>
  \<open>v.k\<close>. Reading a property of \<open>null\<close> or \<open>undefined\<close> throws. An array
  and a string also have their \<open>length\<close>. Properties inherited from a prototype are
  left out: the program reads only \<open>id\<close>, \<open>title\<close> and \<open>completed\<close>, which
  no standard prototype defines.
\<close>

definition length_prop :: "jsval \<Rightarrow> jsval" where
  "length_prop v =
     (case v of
        JArr xs \<Rightarrow> JNum (real (length xs))
      | JStr s \<Rightarrow> JNum (real (length s))
      | _ \<Rightarrow> JUndefined)"

definition get_prop :: "jsval \<Rightarrow> jsstring \<Rightarrow> error + jsval" where
  "get_prop v k =
     (case v of
        JUndefined \<Rightarrow> Inl TypeError
      | JNull \<Rightarrow> Inl TypeError
      | _ \<Rightarrow>
          (case map_of (own_props v) k of
             Some x \<Rightarrow> Inr x
           | None \<Rightarrow> Inr (if k = js ''length'' then length_prop v else JUndefined)))"

text \<open>\<open>v.k\<close> for a value that is neither \<open>null\<close> nor \<open>undefined\<close>.\<close>

definition field :: "jsval \<Rightarrow> string \<Rightarrow> jsval" where
  "field v k = (case get_prop v (js k) of Inr x \<Rightarrow> x | Inl _ \<Rightarrow> JUndefined)"

text \<open>The elements of an array value.\<close>

definition elements :: "jsval \<Rightarrow> jsval list" where
  "elements v = (case v of JArr xs \<Rightarrow> xs | _ \<Rightarrow> [])"

text \<open>
  \<open>a === b\<close>. Primitives compare by type and value, \<open>NaN\<close> equals nothing. Two
  objects are equal only as the same reference; the comparisons of the program have a
  task's \<open>id\<close> on one side and a caller's argument on the other, and a caller can hold
  no reference into the store's raw value unless that value passed validation, where
  every \<open>id\<close> is a string. Object operands are therefore never the same reference.
\<close>

definition strict_eq :: "jsval \<Rightarrow> jsval \<Rightarrow> bool" where
  "strict_eq a b =
     (case (a, b) of
        (JUndefined, JUndefined) \<Rightarrow> True
      | (JNull, JNull) \<Rightarrow> True
      | (JBool x, JBool y) \<Rightarrow> x = y
      | (JNum x, JNum y) \<Rightarrow> x = y
      | (JStr x, JStr y) \<Rightarrow> x = y
      | _ \<Rightarrow> False)"

text \<open>\<open>SameValueZero\<close>, the comparison of \<open>Array.prototype.includes\<close>: as \<open>===\<close>,
  but \<open>NaN\<close> equals \<open>NaN\<close>.\<close>

definition same_value_zero :: "jsval \<Rightarrow> jsval \<Rightarrow> bool" where
  "same_value_zero a b \<longleftrightarrow> strict_eq a b \<or> (a = JNaN \<and> b = JNaN)"

definition array_includes :: "jsval list \<Rightarrow> jsval \<Rightarrow> bool" where
  "array_includes xs v = list_ex (\<lambda>x. same_value_zero x v) xs"

section \<open>The task model (models/Task.js)\<close>

subsection \<open>\<open>String.prototype.trim\<close>\<close>

text \<open>White space and line terminators of ECMAScript, as code units.\<close>

definition is_space :: "cu \<Rightarrow> bool" where
  "is_space c \<longleftrightarrow>
     c \<in> {0x0009, 0x000A, 0x000B, 0x000C, 0x000D, 0x0020, 0x00A0, 0x1680,
          0x2000, 0x2001, 0x2002, 0x2003, 0x2004, 0x2005, 0x2006, 0x2007,
          0x2008, 0x2009, 0x200A, 0x2028, 0x2029, 0x202F, 0x205F, 0x3000, 0xFEFF}"

definition trim :: "jsstring \<Rightarrow> jsstring" where
  "trim s = rev (dropWhile is_space (rev (dropWhile is_space s)))"

subsection \<open>\<open>validateTaskTitle\<close>\<close>

definition validateTaskTitle :: "jsval \<Rightarrow> error + jsstring" where
  "validateTaskTitle title =
     (case title of
        JStr s \<Rightarrow>
          (let trimmedTitle = trim s in
           if length trimmedTitle = 0 then Inl EmptyTitle
           else if length trimmedTitle > 500 then Inl TitleTooLong
           else Inr trimmedTitle)
      | _ \<Rightarrow> Inl InvalidTitle)"

subsection \<open>\<open>isValidUUID\<close>\<close>

text \<open>
  The regular expression of the source,
  \<^verbatim>\<open>/^[0-9a-f]{8}-[0-9a-f]{4}-4[0-9a-f]{3}-[89ab][0-9a-f]{3}-[0-9a-f]{12}$/i\<close>,
  is a sequence of character classes, each repeated a fixed number of times, anchored
  at both ends. A class is a list of ranges. Under the flag \<open>i\<close> a code unit matches
  a class when its canonical form is that of a member. \<open>Canonicalize\<close> upper-cases;
  it never maps a code unit outside ASCII into ASCII, and all members here are ASCII, so
  it is taken as the identity outside the ASCII lower-case letters.
\<close>

type_synonym charclass = "(cu \<times> cu) list"

definition canonicalize :: "cu \<Rightarrow> cu" where
  "canonicalize c = (if ch CHR ''a'' \<le> c \<and> c \<le> ch CHR ''z'' then c - 32 else c)"

definition members :: "cu \<times> cu \<Rightarrow> cu list" where
  "members r = map of_nat [unat (fst r)..<Suc (unat (snd r))]"

definition class_matches :: "charclass \<Rightarrow> cu \<Rightarrow> bool" where
  "class_matches cls c =
     list_ex (\<lambda>r. list_ex (\<lambda>m. canonicalize m = canonicalize c) (members r)) cls"

fun match_count :: "(cu \<Rightarrow> bool) \<Rightarrow> nat \<Rightarrow> jsstring \<Rightarrow> jsstring option" where
  "match_count p 0 s = Some s"
| "match_count p (Suc n) [] = None"
| "match_count p (Suc n) (c # s) = (if p c then match_count p n s else None)"

fun match_anchored :: "(charclass \<times> nat) list \<Rightarrow> jsstring \<Rightarrow> bool" where
  "match_anchored [] s = (s = [])"
| "match_anchored ((cls, n) # r) s =
     (case match_count (class_matches cls) n s of
        None \<Rightarrow> False
      | Some rest \<Rightarrow> match_anchored r rest)"

definition single :: "char \<Rightarrow> charclass" where
  "single c = [(ch c, ch c)]"

definition hexdigits :: charclass where
  "hexdigits = [(ch CHR ''0'', ch CHR ''9''), (ch CHR ''a'', ch CHR ''f'')]"

definition uuidRegex :: "(charclass \<times> nat) list" where
  "uuidRegex =
     [(hexdigits, 8), (single CHR ''-'', 1),
      (hexdigits, 4), (single CHR ''-'', 1),
      (single CHR ''4'', 1), (hexdigits, 3), (single CHR ''-'', 1),
      (single CHR ''8'' @ single CHR ''9'' @ single CHR ''a'' @ single CHR ''b'', 1), (hexdigits, 3),
      (single CHR ''-'', 1),
      (hexdigits, 12)]"

definition isValidUUID :: "jsval \<Rightarrow> bool" where
  "isValidUUID uuid = (case uuid of JStr s \<Rightarrow> match_anchored uuidRegex s | _ \<Rightarrow> False)"

text \<open>
  The specification's wording of the same test, for comparison: the canonical
  8-4-4-4-12 layout of 36 positions, hexadecimal digits of either case in five groups
  separated by hyphens, the version nibble fixed to 4 and the variant nibble one of
  8, 9, a, b.
\<close>

datatype slot = HexDigit | Hyphen | Version4 | VariantNibble

definition uuid_v4_layout :: "slot list" where
  "uuid_v4_layout =
     replicate 8 HexDigit @ [Hyphen] @
     replicate 4 HexDigit @ [Hyphen] @
     [Version4] @ replicate 3 HexDigit @ [Hyphen] @
     [VariantNibble] @ replicate 3 HexDigit @ [Hyphen] @
     replicate 12 HexDigit"

fun fits :: "slot \<Rightarrow> cu \<Rightarrow> bool" where
  "fits HexDigit c \<longleftrightarrow> c \<in> set (js ''0123456789abcdefABCDEF'')"
| "fits Hyphen c \<longleftrightarrow> c = ch CHR ''-''"
| "fits Version4 c \<longleftrightarrow> c = ch CHR ''4''"
| "fits VariantNibble c \<longleftrightarrow> c \<in> set (js ''89abAB'')"

definition uuid_v4_shaped :: "jsstring \<Rightarrow> bool" where
  "uuid_v4_shaped s = list_all2 fits uuid_v4_layout s"

text \<open>The character class the regular expression has at a slot of the layout.\<close>

fun class_of :: "slot \<Rightarrow> charclass" where
  "class_of HexDigit = hexdigits"
| "class_of Hyphen = single CHR ''-''"
| "class_of Version4 = single CHR ''4''"
| "class_of VariantNibble = single CHR ''8'' @ single CHR ''9'' @ single CHR ''a'' @ single CHR ''b''"

subsection \<open>\<open>validateTask\<close>, \<open>validateTasksArray\<close>, \<open>validateFilter\<close>\<close>

definition validateTask :: "jsval \<Rightarrow> error + bool" where
  "validateTask task =
     (if \<not> truthy task \<or> typeof task \<noteq> TObject then Inl NotAnObject
      else and_then (get_prop task (js ''id'')) (\<lambda>task_id.
        if \<not> truthy task_id \<or> typeof task_id \<noteq> TString then Inl MissingId
        else if \<not> isValidUUID task_id then Inl InvalidId
        else and_then (get_prop task (js ''title'')) (\<lambda>task_title.
          and_then (validateTaskTitle task_title) (\<lambda>_.
          and_then (get_prop task (js ''completed'')) (\<lambda>task_completed.
            if typeof task_completed \<noteq> TBoolean then Inl InvalidCompletedFlag
            else Inr True)))))"

text \<open>The conditions of the successive checks of \<open>validateTask\<close>, as properties of
  the candidate: it is an object (by \<open>typeof\<close>, so an array counts) and not
  \<open>null\<close>; its \<open>id\<close> is a non-empty string that \<open>isValidUUID\<close> accepts.\<close>

definition object_shaped :: "jsval \<Rightarrow> bool" where
  "object_shaped v \<longleftrightarrow> v \<noteq> JNull \<and> typeof v = TObject"

definition has_valid_id :: "jsval \<Rightarrow> bool" where
  "has_valid_id v \<longleftrightarrow>
     (case field v ''id'' of JStr i \<Rightarrow> i \<noteq> [] \<and> isValidUUID (JStr i) | _ \<Rightarrow> False)"

text \<open>The \<open>forEach\<close> of \<open>validateTasksArray\<close>, from position \<open>index\<close> on.\<close>

fun validate_each :: "nat \<Rightarrow> jsval list \<Rightarrow> error + unit" where
  "validate_each index [] = Inr ()"
| "validate_each index (task # rest) =
     (case validateTask task of
        Inl e \<Rightarrow> Inl (InvalidTaskAt index e)
      | Inr _ \<Rightarrow> validate_each (Suc index) rest)"

definition validateTasksArray :: "jsval \<Rightarrow> error + bool" where
  "validateTasksArray tasks =
     (case tasks of
        JArr ts \<Rightarrow> (case validate_each 0 ts of Inl e \<Rightarrow> Inl e | Inr _ \<Rightarrow> Inr True)
      | _ \<Rightarrow> Inl NotAnArray)"

definition validFilters :: "jsval list" where
  "validFilters = [JStr (js ''all''), JStr (js ''completed''), JStr (js ''pending'')]"

definition validateFilter :: "jsval \<Rightarrow> error + bool" where
  "validateFilter f = (if \<not> array_includes validFilters f then Inl InvalidFilter else Inr True)"

subsection \<open>\<open>generateTaskId\<close>, \<open>createTask\<close>\<close>

text \<open>
  The sources of randomness are outside the program. \<open>randomUUID\<close> is
  \<open>crypto.randomUUID\<close> where the platform has it: the string its \<open>k\<close>-th call
  returns. \<open>random_draws k\<close> is the value of \<open>Math.random() * 16 | 0\<close> at the
  \<open>k\<close>-th call of \<open>Math.random\<close>, an integer from 0 to 15. The two counters
  say how many calls were made so far.
\<close>

record entropy =
  randomUUID :: "(nat \<Rightarrow> jsstring) option"
  random_draws :: "nat \<Rightarrow> 4 word"
  uuids_taken :: nat
  draws_taken :: nat

text \<open>\<open>v.toString(16)\<close> for \<open>v\<close> from 0 to 15.\<close>

definition toString16 :: "4 word \<Rightarrow> cu" where
  "toString16 v =
     (if unat v < 10 then ch CHR ''0'' + of_nat (unat v)
      else ch CHR ''a'' + of_nat (unat v - 10))"

text \<open>
  \<open>template.replace(/[xy]/g, function(c) {...})\<close>: every \<open>x\<close> and \<open>y\<close>, from
  left to right, is replaced by what the callback returns; each call makes one draw.
\<close>

fun replace_xy :: "jsstring \<Rightarrow> (nat \<Rightarrow> 4 word) \<Rightarrow> nat \<Rightarrow> jsstring \<times> nat" where
  "replace_xy [] draws k = ([], k)"
| "replace_xy (c # cs) draws k =
     (if c = ch CHR ''x'' \<or> c = ch CHR ''y'' then
        (let r = draws k;
             v = (if c = ch CHR ''x'' then r else (r AND 3) OR 8);
             (rest, k') = replace_xy cs draws (Suc k)
         in (toString16 v # rest, k'))
      else
        (let (rest, k') = replace_xy cs draws k in (c # rest, k')))"

text \<open>
  The same replacement told in two steps, for the template of \<open>generateTaskId\<close>: the 31
  values \<open>v\<close> its callback computes in a run that starts at draw \<open>k\<close> (the sixteenth
  placeholder is the \<open>y\<close>), and the template with the placeholders filled by the
  hexadecimal digits of given values.
\<close>

definition id_digits :: "(nat \<Rightarrow> 4 word) \<Rightarrow> nat \<Rightarrow> 4 word list" where
  "id_digits draws k =
     map (\<lambda>j. if j = 15 then (draws (k + j) AND 3) OR 8 else draws (k + j)) [0..<31]"

fun fill :: "jsstring \<Rightarrow> 4 word list \<Rightarrow> jsstring" where
  "fill [] vs = []"
| "fill (c # cs) vs =
     (if c = ch CHR ''x'' \<or> c = ch CHR ''y'' then
        (case vs of [] \<Rightarrow> [] | v # vs' \<Rightarrow> toString16 v # fill cs vs')
      else c # fill cs vs)"

definition generateTaskId :: "entropy \<Rightarrow> jsstring \<times> entropy" where
  "generateTaskId e =
     (case randomUUID e of
        Some uuid \<Rightarrow> (uuid (uuids_taken e), e\<lparr>uuids_taken := Suc (uuids_taken e)\<rparr>)
      | None \<Rightarrow>
          (let (s, k) = replace_xy (js ''xxxxxxxx-xxxx-4xxx-yxxx-xxxxxxxxxxxx'')
                          (random_draws e) (draws_taken e)
           in (s, e\<lparr>draws_taken := k\<rparr>)))"

definition createTask :: "jsval \<Rightarrow> entropy \<Rightarrow> (error + jsval) \<times> entropy" where
  "createTask title e =
     (case validateTaskTitle title of
        Inl err \<Rightarrow> (Inl err, e)
      | Inr validatedTitle \<Rightarrow>
          (let (new_id, e') = generateTaskId e
           in (Inr (JObj [(js ''id'', JStr new_id),
                          (js ''title'', JStr validatedTitle),
                          (js ''completed'', JBool False)]), e')))"

text \<open>\<open>n\<close> consecutive calls of \<open>generateTaskId\<close>.\<close>

fun generate_ids :: "nat \<Rightarrow> entropy \<Rightarrow> jsstring list" where
  "generate_ids 0 e = []"
| "generate_ids (Suc n) e = (let (i, e') = generateTaskId e in i # generate_ids n e')"

section \<open>The task store (context/TaskContext.jsx)\<close>

subsection \<open>State\<close>

datatype diagnostic =
    InvalidTasksData error
  | InvalidFilterData error
  | InvalidFilterArgument error
  | WriteFailed string

text \<open>
  \<open>tasks_state\<close> and \<open>filter_state\<close> are the two states held by
  \<open>useLocalStorage('tasks', [])\<close> and \<open>useLocalStorage('filter', 'all')\<close>;
  \<open>persisted\<close> is the backing key-value store, each entry taken as the value its text
  parses to; \<open>writable\<close> says whether the backing store accepts a write;
  \<open>setItem_calls\<close> records every write handed to the backing store, accepted or
  not; \<open>console\<close> collects the diagnostics.
\<close>

record store =
  tasks_state :: jsval
  filter_state :: jsval
  persisted :: "string \<rightharpoonup> jsval"
  writable :: bool
  setItem_calls :: "(string \<times> jsval) list"
  console :: "diagnostic list"
  entropy :: entropy

text \<open>
  Modelled from the spec: the read of the hook \<open>useLocalStorage\<close>
  (hooks/useLocalStorage.js is not among the sources, only its tests are). It returns the
  fallback for an absent entry, and also for one that fails to deserialize, which is not
  told apart from an absent one here. It never throws.
\<close>

definition useLocalStorage :: "string \<Rightarrow> jsval \<Rightarrow> (string \<rightharpoonup> jsval) \<Rightarrow> jsval" where
  "useLocalStorage key fallback entries = (case entries key of None \<Rightarrow> fallback | Some v \<Rightarrow> v)"

text \<open>
  Modelled from the spec: the write of the hook \<open>useLocalStorage\<close> to the backing store.
  The value is stored under the key; when the backing store raises, the failure is caught
  and reported. It never throws.
\<close>

definition write_entry :: "string \<Rightarrow> jsval \<Rightarrow> store \<Rightarrow> store" where
  "write_entry key v s =
     (let s' = s\<lparr>setItem_calls := setItem_calls s @ [(key, v)]\<rparr>
      in if writable s then s'\<lparr>persisted := (persisted s)(key \<mapsto> v)\<rparr>
         else s'\<lparr>console := console s @ [WriteFailed key]\<rparr>)"

text \<open>
  Modelled from the spec: the setter that \<open>useLocalStorage('tasks', [])\<close> returns,
  called with a value. The value is kept in memory whether or not the write succeeds.
\<close>

definition setTasks :: "jsval \<Rightarrow> store \<Rightarrow> store" where
  "setTasks v s = write_entry ''tasks'' v (s\<lparr>tasks_state := v\<rparr>)"

text \<open>
  Modelled from the spec: the setter that \<open>useLocalStorage('filter', 'all')\<close> returns,
  called with a value.
\<close>

definition setFilterState :: "jsval \<Rightarrow> store \<Rightarrow> store" where
  "setFilterState v s = write_entry ''filter'' v (s\<lparr>filter_state := v\<rparr>)"

text \<open>
  Modelled from the spec: the setter called with an updater function,
  \<open>setTasks(prevTasks => ...)\<close>, stores what the updater returns for the current value.
  The specification does not say what the hook does with an exception of the updater; it
  is passed on to the caller here, with nothing stored.
\<close>

definition setTasks_by :: "(jsval \<Rightarrow> error + jsval) \<Rightarrow> store \<Rightarrow> (error + unit) \<times> store" where
  "setTasks_by updater s =
     (case updater (tasks_state s) of
        Inl e \<Rightarrow> (Inl e, s)
      | Inr v \<Rightarrow> (Inr (), setTasks v s))"

text \<open>The store when the provider mounts: both states are read from the persisted
  entries.\<close>

definition mount :: "(string \<rightharpoonup> jsval) \<Rightarrow> bool \<Rightarrow> entropy \<Rightarrow> store" where
  "mount entries w e =
     \<lparr>tasks_state = useLocalStorage ''tasks'' (JArr []) entries,
      filter_state = useLocalStorage ''filter'' (JStr (js ''all'')) entries,
      persisted = entries, writable = w, setItem_calls = [], console = [], entropy = e\<rparr>"

subsection \<open>Array operations on raw values\<close>

text \<open>
  \<open>v.map(f)\<close> and \<open>v.filter(p)\<close>: a value read from the store has these
  methods only when it is an array; calling them on anything else throws. The callback
  runs on the elements from left to right and its first exception ends the call.
\<close>

fun map_each :: "('a \<Rightarrow> error + 'b) \<Rightarrow> 'a list \<Rightarrow> error + 'b list" where
  "map_each f [] = Inr []"
| "map_each f (x # xs) =
     and_then (f x) (\<lambda>y. and_then (map_each f xs) (\<lambda>ys. Inr (y # ys)))"

fun filter_each :: "('a \<Rightarrow> error + bool) \<Rightarrow> 'a list \<Rightarrow> error + 'a list" where
  "filter_each p [] = Inr []"
| "filter_each p (x # xs) =
     and_then (p x) (\<lambda>keep. and_then (filter_each p xs)
       (\<lambda>ys. Inr (if keep then x # ys else ys)))"

definition array_map :: "(jsval \<Rightarrow> error + jsval) \<Rightarrow> jsval \<Rightarrow> error + jsval" where
  "array_map f v =
     (case v of JArr xs \<Rightarrow> and_then (map_each f xs) (\<lambda>ys. Inr (JArr ys)) | _ \<Rightarrow> Inl TypeError)"

definition array_filter :: "(jsval \<Rightarrow> error + bool) \<Rightarrow> jsval \<Rightarrow> error + jsval" where
  "array_filter p v =
     (case v of JArr xs \<Rightarrow> and_then (filter_each p xs) (\<lambda>ys. Inr (JArr ys)) | _ \<Rightarrow> Inl TypeError)"

text \<open>
  \<open>[...v, x]\<close>: an array spreads into its elements, a string into its code points
  (a lead surrogate followed by a trail surrogate is one code point); nothing else among
  these values is iterable.
\<close>

fun code_points :: "jsstring \<Rightarrow> jsstring list" where
  "code_points [] = []"
| "code_points [c] = [[c]]"
| "code_points (c # d # s) =
     (if 0xD800 \<le> c \<and> c \<le> 0xDBFF \<and> 0xDC00 \<le> d \<and> d \<le> 0xDFFF
      then [c, d] # code_points s
      else [c] # code_points (d # s))"

definition spread_append :: "jsval \<Rightarrow> jsval \<Rightarrow> error + jsval" where
  "spread_append v x =
     (case v of
        JArr xs \<Rightarrow> Inr (JArr (xs @ [x]))
      | JStr s \<Rightarrow> Inr (JArr (map JStr (code_points s) @ [x]))
      | _ \<Rightarrow> Inl TypeError)"

subsection \<open>Self-healing load\<close>

text \<open>
  The two \<open>useMemo\<close> blocks of \<open>TaskProvider\<close>: each returns the value it exposes
  and the store after the reset it may have requested.
\<close>

definition validatedTasks :: "store \<Rightarrow> jsval \<times> store" where
  "validatedTasks s =
     (case validateTasksArray (tasks_state s) of
        Inr _ \<Rightarrow> (tasks_state s, s)
      | Inl error \<Rightarrow>
          (JArr [], setTasks (JArr []) (s\<lparr>console := console s @ [InvalidTasksData error]\<rparr>)))"

definition validatedFilter :: "store \<Rightarrow> jsval \<times> store" where
  "validatedFilter s =
     (case validateFilter (filter_state s) of
        Inr _ \<Rightarrow> (filter_state s, s)
      | Inl error \<Rightarrow>
          (JStr (js ''all''),
           setFilterState (JStr (js ''all'')) (s\<lparr>console := console s @ [InvalidFilterData error]\<rparr>)))"

subsection \<open>Operations\<close>

definition addTask :: "jsval \<Rightarrow> store \<Rightarrow> (error + unit) \<times> store" where
  "addTask title s =
     (case createTask title (entropy s) of
        (Inl error, e') \<Rightarrow> (Inl error, s\<lparr>entropy := e'\<rparr>)
      | (Inr newTask, e') \<Rightarrow>
          setTasks_by (\<lambda>prevTasks. spread_append prevTasks newTask) (s\<lparr>entropy := e'\<rparr>))"

text \<open>The callback of \<open>toggleTaskCompletion\<close>:
  \<open>task.id === id ? { ...task, completed: !task.completed } : task\<close>.\<close>

definition toggle_task :: "jsval \<Rightarrow> jsval \<Rightarrow> error + jsval" where
  "toggle_task ident task =
     and_then (get_prop task (js ''id'')) (\<lambda>task_id.
       if strict_eq task_id ident
       then and_then (get_prop task (js ''completed'')) (\<lambda>task_completed.
              Inr (JObj (AList.update (js ''completed'') (JBool (\<not> truthy task_completed))
                           (own_props task))))
       else Inr task)"

text \<open>The object \<open>{ ...task, completed: !task.completed }\<close> for a task that is not
  \<open>null\<close> or \<open>undefined\<close>.\<close>

definition flipped :: "jsval \<Rightarrow> jsval" where
  "flipped t =
     JObj (AList.update (js ''completed'') (JBool (\<not> truthy (field t ''completed'')))
             (own_props t))"

definition toggleTaskCompletion :: "jsval \<Rightarrow> store \<Rightarrow> (error + unit) \<times> store" where
  "toggleTaskCompletion ident s =
     setTasks_by (\<lambda>prevTasks. array_map (toggle_task ident) prevTasks) s"

text \<open>The callback of \<open>deleteTask\<close>: \<open>task.id !== id\<close>.\<close>

definition keep_task :: "jsval \<Rightarrow> jsval \<Rightarrow> error + bool" where
  "keep_task ident task =
     and_then (get_prop task (js ''id'')) (\<lambda>task_id. Inr (\<not> strict_eq task_id ident))"

definition deleteTask :: "jsval \<Rightarrow> store \<Rightarrow> (error + unit) \<times> store" where
  "deleteTask ident s =
     setTasks_by (\<lambda>prevTasks. array_filter (keep_task ident) prevTasks) s"

definition setFilter :: "jsval \<Rightarrow> store \<Rightarrow> (error + unit) \<times> store" where
  "setFilter newFilter s =
     (case validateFilter newFilter of
        Inr _ \<Rightarrow> (Inr (), setFilterState newFilter s)
      | Inl error \<Rightarrow> (Inl error, s\<lparr>console := console s @ [InvalidFilterArgument error]\<rparr>))"

subsection \<open>The filtered view and the context value\<close>

text \<open>The \<open>switch\<close> compares with \<open>===\<close> against string literals.\<close>

definition filteredTasks :: "jsval \<Rightarrow> jsval \<Rightarrow> error + jsval" where
  "filteredTasks vTasks vFilter =
     (if vFilter = JStr (js ''completed'') then
        array_filter (\<lambda>task. and_then (get_prop task (js ''completed''))
                        (\<lambda>c. Inr (truthy c))) vTasks
      else if vFilter = JStr (js ''pending'') then
        array_filter (\<lambda>task. and_then (get_prop task (js ''completed''))
                        (\<lambda>c. Inr (\<not> truthy c))) vTasks
      else Inr vTasks)"

record context_value =
  ctx_tasks :: jsval
  ctx_filter :: jsval
  ctx_filteredTasks :: "error + jsval"

text \<open>One render of \<open>TaskProvider\<close>: the context value it provides and the store
  after the resets of the load.\<close>

definition TaskProvider :: "store \<Rightarrow> context_value \<times> store" where
  "TaskProvider s =
     (let (vTasks, s1) = validatedTasks s;
          (vFilter, s2) = validatedFilter s1
      in (\<lparr>ctx_tasks = vTasks, ctx_filter = vFilter,
           ctx_filteredTasks = filteredTasks vTasks vFilter\<rparr>, s2))"

section \<open>Sample data\<close>

text \<open>Concrete values, taken from the tests of the repository, at which the
  properties below are exercised.\<close>

definition sample_task1 :: jsval where
  "sample_task1 =
     JObj [(js ''id'', JStr (js ''123e4567-e89b-42d3-a456-426614174000'')),
           (js ''title'', JStr (js ''Task 1'')),
           (js ''completed'', JBool False)]"

definition sample_task2 :: jsval where
  "sample_task2 =
     JObj [(js ''id'', JStr (js ''987fcdeb-51d2-43e1-b789-123456789abc'')),
           (js ''title'', JStr (js ''Task 2'')),
           (js ''completed'', JBool True)]"

definition empty_id_task :: jsval where
  "empty_id_task =
     JObj [(js ''id'', JStr []),
           (js ''title'', JStr (js ''Task 1'')),
           (js ''completed'', JBool False)]"

definition untitled_task :: jsval where
  "untitled_task =
     JObj [(js ''id'', JStr (js ''123e4567-e89b-42d3-a456-426614174000'')),
           (js ''title'', JStr []),
           (js ''completed'', JNum 1)]"

definition sample_entries :: "string \<rightharpoonup> jsval" where
  "sample_entries =
     [''tasks'' \<mapsto> JArr [sample_task1, sample_task2], ''filter'' \<mapsto> JStr (js ''all'')]"

definition corrupt_entries :: "string \<rightharpoonup> jsval" where
  "corrupt_entries =
     [''tasks'' \<mapsto> JArr [JObj [(js ''invalid'', JStr (js ''task''))]],
      ''filter'' \<mapsto> JStr (js ''invalid-filter'')]"

definition zero_draws :: "nat \<Rightarrow> 4 word" where
  "zero_draws k = 0"

definition sample_entropy :: entropy where
  "sample_entropy =
     \<lparr>randomUUID = None, random_draws = zero_draws, uuids_taken = 0, draws_taken = 0\<rparr>"

definition sample_store :: store where
  "sample_store = mount sample_entries True sample_entropy"

definition corrupt_store :: store where
  "corrupt_store = mount corrupt_entries True sample_entropy"

section \<open>Properties\<close>

subsection \<open>Strings and property names\<close>


lemma of_char_less_256: "(of_char c :: nat) < 256"
proof -
  have "(of_char c :: nat) mod 256 < 256" by simp
  then show ?thesis by (simp only: of_char_mod_256)
qed

lemma ch_unat: "unat (ch c) = of_char c"
proof -
  have "(of_char c :: nat) < 65536"
    by (rule less_trans [OF of_char_less_256]) simp
  then show ?thesis unfolding ch_def by (simp add: unat_of_nat)
qed

lemma ch_inj: "ch c = ch d \<longleftrightarrow> c = d"
proof
  assume "ch c = ch d"
  then have "unat (ch c) = unat (ch d)" by simp
  then show "c = d" by (simp add: ch_unat)
qed simp

lemma decimal_nonempty: "decimal n \<noteq> []"
  by (subst decimal.simps) simp

lemma digit_char_code: "d < 10 \<Longrightarrow> of_char (digit_char d) = 48 + d"
  unfolding digit_char_def by simp

lemma hd_decimal: "(of_char (hd (decimal n)) :: nat) \<in> {48..57}"
proof (induction n rule: decimal.induct)
  case (1 n)
  show ?case
  proof (cases "n < 10")
    case True
    then show ?thesis by (subst decimal.simps) (simp add: digit_char_code)
  next
    case False
    with 1 show ?thesis by (subst decimal.simps) (simp add: decimal_nonempty)
  qed
qed

lemma map_of_indexed_None:
  assumes "k \<noteq> []" "unat (hd k) \<notin> {48..57}"
  shows "map_of (indexed xs) k = None"
proof -
  have "k \<notin> (\<lambda>i. js (decimal i)) ` set [0..<length xs]"
  proof
    assume "k \<in> (\<lambda>i. js (decimal i)) ` set [0..<length xs]"
    then obtain i where "k = js (decimal i)" by auto
    then have "hd k = ch (hd (decimal i))"
      by (simp add: js_def hd_map decimal_nonempty)
    then have "unat (hd k) \<in> {48..57}"
      using hd_decimal [of i] by (simp add: ch_unat)
    with assms show False by simp
  qed
  then show ?thesis
    unfolding indexed_def map_of_eq_None_iff
    by (auto dest!: set_zip_leftD)
qed

lemma key_facts:
  "js ''id'' \<noteq> js ''completed''" "js ''title'' \<noteq> js ''completed''" "js ''id'' \<noteq> js ''title''"
  by (simp_all add: js_def ch_def)

lemma array_no_fields:
  "map_of (indexed xs) (js ''id'') = None"
  "map_of (indexed xs) (js ''title'') = None"
  "map_of (indexed xs) (js ''completed'') = None"
  by (rule map_of_indexed_None; simp add: js_def ch_def)+

subsection \<open>The UUID pattern\<close>

lemma members_hex:
  "members (ch CHR ''0'', ch CHR ''9'') = js ''0123456789''"
  "members (ch CHR ''a'', ch CHR ''f'') = js ''abcdef''"
  "members (ch c, ch c) = [ch c]"
  by (simp_all add: members_def ch_unat js_def ch_def)

lemma class_matches_alt:
  "class_matches cls c \<longleftrightarrow> canonicalize c \<in> set (map canonicalize (concat (map members cls)))"
proof -
  have "class_matches cls c \<longleftrightarrow>
      (\<exists>r \<in> set cls. \<exists>m \<in> set (members r). canonicalize m = canonicalize c)"
    by (simp add: class_matches_def list_ex_iff)
  also have "\<dots> \<longleftrightarrow> (\<exists>m \<in> set (concat (map members cls)). canonicalize m = canonicalize c)"
    by auto
  also have "\<dots> \<longleftrightarrow> (\<exists>m \<in> set (concat (map members cls)). canonicalize c = canonicalize m)"
    by (simp only: eq_commute [of "canonicalize c"])
  also have "\<dots> \<longleftrightarrow> canonicalize c \<in> set (map canonicalize (concat (map members cls)))"
    by (simp only: set_map image_iff)
  finally show ?thesis .
qed

lemma hex_lower:
  assumes "ch CHR ''a'' \<le> c \<and> c \<le> ch CHR ''z''"
  shows "(c - 32 \<in> set (js ''0123456789ABCDEF'')) \<longleftrightarrow> c \<in> set (js ''0123456789abcdefABCDEF'')"
  using assms by (auto simp: js_def ch_def diff_eq_eq)

lemma other_lower:
  assumes "ch CHR ''a'' \<le> c \<and> c \<le> ch CHR ''z''"
  shows "c - 32 \<noteq> ch CHR ''-''" "c - 32 \<noteq> ch CHR ''4''"
    "c \<noteq> ch CHR ''-''" "c \<noteq> ch CHR ''4''"
    "(c - 32 \<in> set (js ''89AB'')) \<longleftrightarrow> c \<in> set (js ''89abAB'')"
  using assms by (auto simp: js_def ch_def diff_eq_eq)

lemma hex_not_lower:
  assumes "\<not> (ch CHR ''a'' \<le> c \<and> c \<le> ch CHR ''z'')"
  shows "(c \<in> set (js ''0123456789ABCDEF'')) \<longleftrightarrow> c \<in> set (js ''0123456789abcdefABCDEF'')"
    "(c \<in> set (js ''89AB'')) \<longleftrightarrow> c \<in> set (js ''89abAB'')"
  using assms by (auto simp: js_def ch_def)

lemma class_members:
  "map canonicalize (concat (map members (class_of HexDigit))) = js ''0123456789ABCDEF''"
  "map canonicalize (concat (map members (class_of Hyphen))) = js ''-''"
  "map canonicalize (concat (map members (class_of Version4))) = js ''4''"
  "map canonicalize (concat (map members (class_of VariantNibble))) = js ''89AB''"
  by (simp_all add: hexdigits_def single_def members_hex)
    (simp_all add: js_def ch_def canonicalize_def)

lemma class_matches_fits: "class_matches (class_of sl) c \<longleftrightarrow> fits sl c"
proof (cases "ch CHR ''a'' \<le> c \<and> c \<le> ch CHR ''z''")
  case True
  then have c: "canonicalize c = c - 32" by (simp add: canonicalize_def)
  show ?thesis
    unfolding class_matches_alt c
    by (cases sl) (simp_all only: class_members fits.simps hex_lower [OF True] other_lower [OF True], simp_all add: js_def other_lower [OF True])
next
  case False
  then have c: "canonicalize c = c" by (simp add: canonicalize_def)
  show ?thesis
    unfolding class_matches_alt c
    by (cases sl) (simp_all only: class_members fits.simps hex_not_lower [OF False], simp_all add: js_def)
qed

lemma match_count_iff:
  "match_count p n s =
     (if n \<le> length s \<and> list_all p (take n s) then Some (drop n s) else None)"
proof (induction n arbitrary: s)
  case 0
  show ?case by simp
next
  case (Suc n)
  then show ?case by (cases s) simp_all
qed

lemma list_all2_replicate_append:
  "list_all2 P (replicate n a @ rest) s \<longleftrightarrow>
     n \<le> length s \<and> list_all (P a) (take n s) \<and> list_all2 P rest (drop n s)"
proof (induction n arbitrary: s)
  case 0
  show ?case by simp
next
  case (Suc n)
  then show ?case by (cases s) auto
qed

lemma match_anchored_iff:
  "match_anchored pat s \<longleftrightarrow>
     list_all2 class_matches (concat (map (\<lambda>(cls, n). replicate n cls) pat)) s"
proof (induction pat arbitrary: s)
  case Nil
  show ?case by auto
next
  case (Cons item pat)
  obtain cls n where item: "item = (cls, n)" by (cases item)
  show ?case
    unfolding item
    by (auto simp: match_count_iff list_all2_replicate_append Cons.IH)
qed

lemma regex_layout:
  "concat (map (\<lambda>(cls, n). replicate n cls) uuidRegex) = map class_of uuid_v4_layout"
  by (simp add: uuidRegex_def uuid_v4_layout_def replicate_append_same)

lemma regex_is_layout: "match_anchored uuidRegex s \<longleftrightarrow> uuid_v4_shaped s"
proof -
  have "match_anchored uuidRegex s \<longleftrightarrow> list_all2 class_matches (map class_of uuid_v4_layout) s"
    by (simp only: match_anchored_iff regex_layout)
  also have "\<dots> \<longleftrightarrow> list_all2 (\<lambda>sl c. class_matches (class_of sl) c) uuid_v4_layout s"
    by (simp only: list_all2_map1)
  also have "\<dots> \<longleftrightarrow> uuid_v4_shaped s"
    by (simp only: class_matches_fits uuid_v4_shaped_def)
  finally show ?thesis .
qed

text \<open>
  Claim C7. For every value \<open>v\<close>, \<open>isValidUUID(v)\<close> is true exactly when
  \<open>v\<close> is a string in the canonical 8-4-4-4-12 layout of hexadecimal digits, with
  the version nibble 4 and the variant nibble one of 8, 9, a, b, letters in either case.
  For every value that is not a string, \<open>null\<close> and \<open>undefined\<close> included, and
  every malformed string it is false. It is a total function to the booleans: no input
  makes it throw.
\<close>

theorem isValidUUID_pattern:
  "(isValidUUID v \<longleftrightarrow> (\<exists>s. v = JStr s \<and> uuid_v4_shaped s)) \<and>
   (typeof v \<noteq> TString \<longrightarrow> isValidUUID v = False)"
  by (cases v) (simp_all add: isValidUUID_def regex_is_layout)

lemma uuid_v4_layout_slots:
  "uuid_v4_layout =
     [HexDigit, HexDigit, HexDigit, HexDigit, HexDigit, HexDigit, HexDigit, HexDigit, Hyphen,
      HexDigit, HexDigit, HexDigit, HexDigit, Hyphen,
      Version4, HexDigit, HexDigit, HexDigit, Hyphen,
      VariantNibble, HexDigit, HexDigit, HexDigit, Hyphen,
      HexDigit, HexDigit, HexDigit, HexDigit, HexDigit, HexDigit,
      HexDigit, HexDigit, HexDigit, HexDigit, HexDigit, HexDigit]"
  by (simp add: uuid_v4_layout_def eval_nat_numeral)

theorem isValidUUID_pattern_witness:
  "isValidUUID (JStr (js ''123e4567-e89b-42d3-a456-426614174000'')) \<and>
   isValidUUID (JStr (js ''987FCDEB-51D2-43E1-B789-123456789ABC'')) \<and>
   \<not> isValidUUID (JStr (js ''123e4567-e89b-12d3-a456-426614174000'')) \<and>
   \<not> isValidUUID (JStr (js ''invalid-uuid'')) \<and>
   \<not> isValidUUID JNull \<and> \<not> isValidUUID JUndefined \<and> \<not> isValidUUID (JNum 123)"
proof -
  have "uuid_v4_shaped (js ''123e4567-e89b-42d3-a456-426614174000'')"
    "uuid_v4_shaped (js ''987FCDEB-51D2-43E1-B789-123456789ABC'')"
    "\<not> uuid_v4_shaped (js ''123e4567-e89b-12d3-a456-426614174000'')"
    "\<not> uuid_v4_shaped (js ''invalid-uuid'')"
    by (simp_all add: uuid_v4_shaped_def uuid_v4_layout_slots js_def ch_def)
  then show ?thesis
    using isValidUUID_pattern [of "JStr (js ''123e4567-e89b-42d3-a456-426614174000'')"]
      isValidUUID_pattern [of "JStr (js ''987FCDEB-51D2-43E1-B789-123456789ABC'')"]
      isValidUUID_pattern [of "JStr (js ''123e4567-e89b-12d3-a456-426614174000'')"]
      isValidUUID_pattern [of "JStr (js ''invalid-uuid'')"]
      isValidUUID_pattern [of JNull] isValidUUID_pattern [of JUndefined]
      isValidUUID_pattern [of "JNum 123"]
    by simp
qed

subsection \<open>Validation of a task and of a collection\<close>

lemma get_prop_obj: "get_prop (JObj ps) k = Inr (case map_of ps k of Some x \<Rightarrow> x | None \<Rightarrow> JUndefined)"
  by (simp add: get_prop_def length_prop_def split: option.splits)

lemma get_prop_arr:
  "get_prop (JArr xs) (js ''id'') = Inr JUndefined"
proof -
  have "js ''id'' \<noteq> js ''length''" by (simp add: js_def)
  then show ?thesis by (simp add: get_prop_def array_no_fields)
qed

lemma validateTask_array: "validateTask (JArr xs) = Inl MissingId"
  by (simp add: validateTask_def get_prop_arr and_then_def)

lemma field_obj: "field (JObj ps) k = (case map_of ps (js k) of Some x \<Rightarrow> x | None \<Rightarrow> JUndefined)"
  by (simp add: field_def get_prop_obj)

lemma validateTask_primitive:
  "v = JNull \<or> typeof v \<noteq> TObject \<Longrightarrow> validateTask v = Inl NotAnObject"
  by (auto simp: validateTask_def)

lemma validateTask_obj:
  "validateTask (JObj ps) =
     (if \<not> truthy (field (JObj ps) ''id'') \<or> typeof (field (JObj ps) ''id'') \<noteq> TString then Inl MissingId
      else if \<not> isValidUUID (field (JObj ps) ''id'') then Inl InvalidId
      else case validateTaskTitle (field (JObj ps) ''title'') of Inl e \<Rightarrow> Inl e
        | Inr _ \<Rightarrow> if typeof (field (JObj ps) ''completed'') \<noteq> TBoolean then Inl InvalidCompletedFlag else Inr True)"
  by (simp add: validateTask_def field_def get_prop_obj and_then_def)

lemma validateTaskTitle_kinds:
  "validateTaskTitle v = Inl e \<Longrightarrow> e = InvalidTitle \<or> e = EmptyTitle \<or> e = TitleTooLong"
  by (auto simp: validateTaskTitle_def Let_def split: jsval.splits if_splits)

lemma typeof_object_cases:
  "typeof v = TObject \<Longrightarrow> v \<noteq> JNull \<Longrightarrow> (\<exists>ps. v = JObj ps) \<or> (\<exists>xs. v = JArr xs)"
  by (cases v) auto

lemma validateTask_not_object:
  "validateTask v = Inl NotAnObject \<longleftrightarrow> v = JNull \<or> typeof v \<noteq> TObject"
proof
  assume l: "validateTask v = Inl NotAnObject"
  show "v = JNull \<or> typeof v \<noteq> TObject"
  proof (rule ccontr)
    assume "\<not> (v = JNull \<or> typeof v \<noteq> TObject)"
    then consider ps where "v = JObj ps" | xs where "v = JArr xs"
      using typeof_object_cases by blast
    then show False
    proof cases
      case 1
      with l show False
        by (auto simp: validateTask_obj split: if_splits sum.splits dest: validateTaskTitle_kinds)
    next
      case 2
      with l show False by (simp add: validateTask_array)
    qed
  qed
qed (rule validateTask_primitive)

lemma typeof_string: "typeof v = TString \<longleftrightarrow> (\<exists>s. v = JStr s)"
  by (cases v) auto

lemma typeof_boolean: "typeof v = TBoolean \<longleftrightarrow> (\<exists>b. v = JBool b)"
  by (cases v) auto

lemma validateTaskTitle_Inr: "validateTaskTitle v = Inr t \<Longrightarrow> \<exists>s. v = JStr s"
  by (auto simp: validateTaskTitle_def split: jsval.splits)

lemma field_obj_Some: "field (JObj ps) k = v \<Longrightarrow> v \<noteq> JUndefined \<Longrightarrow> map_of ps (js k) = Some v"
  by (auto simp: field_obj split: option.splits)

lemma validateTask_obj_iff:
  "validateTask (JObj ps) = Inr True \<longleftrightarrow>
     (\<exists>i. i \<noteq> [] \<and> field (JObj ps) ''id'' = JStr i \<and> isValidUUID (JStr i)) \<and>
     (\<exists>r. validateTaskTitle (field (JObj ps) ''title'') = Inr r) \<and>
     (\<exists>c. field (JObj ps) ''completed'' = JBool c)"
  unfolding validateTask_obj
  by (auto simp: typeof_string typeof_boolean split: sum.splits)

lemma valid_task_shape:
  assumes "validateTask t = Inr True"
  obtains ps i ttl c where "t = JObj ps" "map_of ps (js ''id'') = Some (JStr i)" "isValidUUID (JStr i)"
    "map_of ps (js ''title'') = Some (JStr ttl)" "map_of ps (js ''completed'') = Some (JBool c)"
proof -
  from assms have "validateTask t \<noteq> Inl NotAnObject" by simp
  then have "t \<noteq> JNull" "typeof t = TObject" by (auto simp: validateTask_not_object)
  then consider ps where "t = JObj ps" | xs where "t = JArr xs"
    using typeof_object_cases by blast
  then show ?thesis
  proof cases
    case 1
    from assms [unfolded 1 validateTask_obj]
    obtain i ttl c where "field (JObj ps) ''id'' = JStr i" "isValidUUID (JStr i)"
      "field (JObj ps) ''title'' = JStr ttl" "field (JObj ps) ''completed'' = JBool c"
      by (auto simp: typeof_string typeof_boolean split: if_splits sum.splits dest!: validateTaskTitle_Inr)
    then show ?thesis
      using that [OF 1, of i ttl c] by (auto dest: field_obj_Some)
  next
    case 2
    with assms show ?thesis by (simp add: validateTask_array)
  qed
qed

lemma validateTask_Inr: "validateTask t = Inr b \<Longrightarrow> b"
  by (auto simp: validateTask_def and_then_def split: if_splits sum.splits)

lemma validate_each_Inr:
  "validate_each k ts = Inr u \<longleftrightarrow> (\<forall>t \<in> set ts. validateTask t = Inr True)"
proof (induction ts arbitrary: k)
  case Nil
  show ?case by simp
next
  case (Cons t ts)
  show ?case
  proof (cases "validateTask t")
    case (Inl e)
    then show ?thesis by auto
  next
    case (Inr b)
    from validateTask_Inr [OF Inr] Inr have "validateTask t = Inr True" by simp
    with Cons show ?thesis by simp
  qed
qed

lemma validateTasksArray_Inr:
  "validateTasksArray v = Inr b \<longleftrightarrow> b \<and> (\<exists>ts. v = JArr ts \<and> (\<forall>t \<in> set ts. validateTask t = Inr True))"
proof (cases v)
  case (JArr ts)
  show ?thesis
  proof (cases "validate_each 0 ts")
    case (Inl e)
    then have "\<not> (\<forall>t \<in> set ts. validateTask t = Inr True)"
      using validate_each_Inr [of 0 ts "()"] by simp
    with Inl JArr show ?thesis by (simp add: validateTasksArray_def)
  next
    case (Inr u)
    then have "\<forall>t \<in> set ts. validateTask t = Inr True"
      using validate_each_Inr [of 0 ts u] by simp
    with Inr JArr show ?thesis by (auto simp: validateTasksArray_def)
  qed
qed (simp_all add: validateTasksArray_def)

lemma valid_tasks_elements:
  "validateTasksArray v = Inr True \<Longrightarrow> v = JArr (elements v) \<and> (\<forall>t \<in> set (elements v). validateTask t = Inr True)"
  by (auto simp: validateTasksArray_Inr elements_def)

lemma map_each_total:
  "(\<forall>x \<in> set xs. f x = Inr (g x)) \<Longrightarrow> map_each f xs = Inr (map g xs)"
  by (induction xs) (simp_all add: and_then_def)

lemma filter_each_total:
  "(\<forall>x \<in> set xs. p x = Inr (q x)) \<Longrightarrow> filter_each p xs = Inr (filter q xs)"
  by (induction xs) (simp_all add: and_then_def)

lemma toggle_task_valid:
  assumes "validateTask t = Inr True"
  shows "toggle_task ident t = Inr (if strict_eq (field t ''id'') ident then flipped t else t)"
proof -
  from assms obtain ps where "t = JObj ps" by (rule valid_task_shape)
  then show ?thesis
    by (simp add: toggle_task_def get_prop_obj and_then_def field_obj flipped_def)
qed

lemma flipped_valid:
  assumes "validateTask t = Inr True"
  shows "validateTask (flipped t) = Inr True"
    and "field (flipped t) ''id'' = field t ''id''"
    and "field (flipped t) ''title'' = field t ''title''"
    and "field (flipped t) ''completed'' = JBool (\<not> truthy (field t ''completed''))"
    and "flipped (flipped t) = t"
proof -
  from assms obtain ps i ttl c where t: "t = JObj ps" "map_of ps (js ''id'') = Some (JStr i)"
    "map_of ps (js ''title'') = Some (JStr ttl)" "map_of ps (js ''completed'') = Some (JBool c)"
    by (rule valid_task_shape)
  define ps' where "ps' = AList.update (js ''completed'') (JBool (\<not> c)) ps"
  have f: "flipped t = JObj ps'"
    by (simp add: flipped_def t field_obj ps'_def)
  have old: "field (JObj ps) ''id'' = JStr i" "field (JObj ps) ''title'' = JStr ttl"
    "field (JObj ps) ''completed'' = JBool c"
    by (simp_all add: field_obj t)
  have new: "field (JObj ps') ''id'' = JStr i" "field (JObj ps') ''title'' = JStr ttl"
    "field (JObj ps') ''completed'' = JBool (\<not> c)"
    by (simp_all add: field_obj ps'_def update_conv' key_facts t)
  show "field (flipped t) ''id'' = field t ''id''" "field (flipped t) ''title'' = field t ''title''"
    "field (flipped t) ''completed'' = JBool (\<not> truthy (field t ''completed''))"
    unfolding f unfolding t(1) by (simp_all add: old new)
  from assms have "validateTask (JObj ps) = Inr True" by (simp add: t(1))
  then have "validateTask (JObj ps') = Inr True"
    unfolding validateTask_obj_iff by (simp add: old new)
  then show "validateTask (flipped t) = Inr True" by (simp add: f)
  have "flipped (JObj ps') = JObj (AList.update (js ''completed'') (JBool c) ps')"
    by (simp add: flipped_def new)
  also have "\<dots> = JObj (AList.update (js ''completed'') (JBool c) ps)"
    by (simp add: ps'_def)
  also have "\<dots> = t" using t by (simp add: update_triv)
  finally show "flipped (flipped t) = t" by (simp add: f)
qed

subsection \<open>Titles\<close>

lemma dropWhile_head: "xs \<noteq> [] \<Longrightarrow> \<not> P (hd xs) \<Longrightarrow> dropWhile P xs = xs"
  by (cases xs) simp_all

lemma trim_padded:
  assumes "\<forall>c \<in> set a. is_space c" "\<forall>c \<in> set b. is_space c"
    and "m \<noteq> []" "\<not> is_space (hd m)" "\<not> is_space (last m)"
  shows "trim (a @ m @ b) = m"
proof -
  have "dropWhile is_space (a @ m @ b) = dropWhile is_space (m @ b)"
    by (rule dropWhile_append2) (use assms in auto)
  also have "\<dots> = m @ b"
    by (rule dropWhile_head) (use assms in auto)
  finally have 1: "dropWhile is_space (a @ m @ b) = m @ b" .
  have "dropWhile is_space (rev b @ rev m) = dropWhile is_space (rev m)"
    by (rule dropWhile_append2) (use assms in auto)
  also have "\<dots> = rev m"
    by (rule dropWhile_head) (use assms in \<open>auto simp: hd_rev\<close>)
  finally show ?thesis by (simp add: trim_def 1)
qed

lemma trim_blank: "\<forall>c \<in> set s. is_space c \<Longrightarrow> trim s = []"
proof -
  assume "\<forall>c \<in> set s. is_space c"
  then have e: "dropWhile is_space s = []" by (simp add: dropWhile_eq_Nil_conv)
  show ?thesis unfolding trim_def e by simp
qed

lemma trim_decomposition:
  "\<exists>a b. s = a @ trim s @ b \<and> (\<forall>c \<in> set a. is_space c) \<and> (\<forall>c \<in> set b. is_space c) \<and>
     (trim s \<noteq> [] \<longrightarrow> \<not> is_space (hd (trim s)) \<and> \<not> is_space (last (trim s)))"
proof -
  define m where "m = dropWhile is_space s"
  define a where "a = takeWhile is_space s"
  define b where "b = rev (takeWhile is_space (rev m))"
  have t: "trim s = rev (dropWhile is_space (rev m))"
    by (simp add: trim_def m_def)
  have "rev (takeWhile is_space (rev m) @ dropWhile is_space (rev m)) = rev (rev m)"
    by (simp only: takeWhile_dropWhile_id)
  then have "rev (dropWhile is_space (rev m)) @ rev (takeWhile is_space (rev m)) = m"
    by (simp only: rev_append rev_rev_ident)
  then have m: "m = trim s @ b" by (simp only: t b_def)
  have s: "s = a @ trim s @ b"
    unfolding m [symmetric] by (simp add: a_def m_def)
  have sa: "\<forall>c \<in> set a. is_space c"
    unfolding a_def by (auto dest: set_takeWhileD)
  have sb: "\<forall>c \<in> set b. is_space c"
    unfolding b_def by (auto dest: set_takeWhileD)
  have ends: "\<not> is_space (hd (trim s)) \<and> \<not> is_space (last (trim s))" if ne: "trim s \<noteq> []"
  proof
    from ne m have "m \<noteq> []" "hd (trim s) = hd m" by auto
    then show "\<not> is_space (hd (trim s))"
      unfolding m_def using hd_dropWhile [of is_space s] by simp
    from ne have "dropWhile is_space (rev m) \<noteq> []" by (simp add: t)
    then have "\<not> is_space (hd (dropWhile is_space (rev m)))" by (rule hd_dropWhile)
    then show "\<not> is_space (last (trim s))"
      using ne by (simp add: t last_rev)
  qed
  from s sa sb ends show ?thesis by blast
qed

lemma is_space_simps:
  "is_space (ch CHR '' '')" "\<not> is_space (ch CHR ''a'')"
  by (simp_all add: is_space_def ch_def)

text \<open>
  Claim C6. Title length boundary: a string whose trimmed form is longer than 500 code
  units is rejected by \<open>validateTaskTitle\<close> as \<open>TitleTooLong\<close>; one whose
  trimmed form has length exactly 500 is accepted and the trimmed string is returned; one
  whose trimmed form is empty is rejected as \<open>EmptyTitle\<close>.
\<close>

theorem validateTaskTitle_boundary:
  "(length (trim s) > 500 \<longrightarrow> validateTaskTitle (JStr s) = Inl TitleTooLong) \<and>
   (length (trim s) = 500 \<longrightarrow> validateTaskTitle (JStr s) = Inr (trim s)) \<and>
   (length (trim s) = 0 \<longrightarrow> validateTaskTitle (JStr s) = Inl EmptyTitle)"
  by (simp add: validateTaskTitle_def Let_def)

theorem validateTaskTitle_boundary_witness:
  "validateTaskTitle (JStr (replicate 501 (ch CHR ''a''))) = Inl TitleTooLong \<and>
   validateTaskTitle (JStr (js ''  '' @ replicate 500 (ch CHR ''a'') @ js '' '')) =
     Inr (replicate 500 (ch CHR ''a'')) \<and>
   validateTaskTitle (JStr (js ''   '')) = Inl EmptyTitle"
proof -
  have a: "trim (replicate 501 (ch CHR ''a'')) = replicate 501 (ch CHR ''a'')"
    using trim_padded [of "[]" "[]" "replicate 501 (ch CHR ''a'')"]
    by (simp add: is_space_simps hd_replicate last_replicate)
  have b: "trim (js ''  '' @ replicate 500 (ch CHR ''a'') @ js '' '') = replicate 500 (ch CHR ''a'')"
    by (rule trim_padded) (simp_all add: js_def is_space_simps hd_replicate last_replicate)
  have c: "trim (js ''   '') = []"
    by (rule trim_blank) (simp add: js_def is_space_simps)
  show ?thesis
    using validateTaskTitle_boundary [of "replicate 501 (ch CHR ''a'')"]
      validateTaskTitle_boundary [of "js ''  '' @ replicate 500 (ch CHR ''a'') @ js '' ''"]
      validateTaskTitle_boundary [of "js ''   ''"]
    by (simp add: a b c)
qed

subsection \<open>Filters and the frame of the operations\<close>

lemma same_value_zero_string: "same_value_zero (JStr a) v \<longleftrightarrow> v = JStr a"
  by (cases v) (auto simp: same_value_zero_def strict_eq_def)

lemma validateFilter_iff:
  "validateFilter v = Inr True \<longleftrightarrow>
     v = JStr (js ''all'') \<or> v = JStr (js ''completed'') \<or> v = JStr (js ''pending'')"
  by (auto simp: validateFilter_def array_includes_def validFilters_def same_value_zero_string)

lemma validateFilter_cases:
  "validateFilter v = Inr True \<or> validateFilter v = Inl InvalidFilter"
  by (simp add: validateFilter_def)

lemma sample_store_simps:
  "tasks_state sample_store = JArr [sample_task1, sample_task2]"
  "filter_state sample_store = JStr (js ''all'')"
  "writable sample_store"
  "tasks_state corrupt_store = JArr [JObj [(js ''invalid'', JStr (js ''task''))]]"
  "filter_state corrupt_store = JStr (js ''invalid-filter'')"
  "writable corrupt_store"
  by (simp_all add: sample_store_def corrupt_store_def mount_def useLocalStorage_def
      sample_entries_def corrupt_entries_def)

lemma write_entry_frame:
  "tasks_state (write_entry k v s) = tasks_state s"
  "filter_state (write_entry k v s) = filter_state s"
  "entropy (write_entry k v s) = entropy s"
  "k' \<noteq> k \<Longrightarrow> persisted (write_entry k v s) k' = persisted s k'"
  by (simp_all add: write_entry_def Let_def)

text \<open>
  Claim C3. \<open>setFilter(newFilter)\<close> succeeds exactly when \<open>newFilter\<close> is one
  of the strings \<open>all\<close>, \<open>completed\<close>, \<open>pending\<close>. On success the filter
  becomes \<open>newFilter\<close>; on failure the error of \<open>validateFilter\<close> reaches the
  caller and the filter is as before: the store differs from the one before the call only
  by the diagnostic written to the console. The task collection is untouched either way.
\<close>

theorem setFilter_validates:
  "(fst (setFilter newFilter s) = Inr () \<longleftrightarrow>
      newFilter = JStr (js ''all'') \<or> newFilter = JStr (js ''completed'') \<or>
      newFilter = JStr (js ''pending'')) \<and>
   (fst (setFilter newFilter s) = Inr () \<longrightarrow>
      filter_state (snd (setFilter newFilter s)) = newFilter) \<and>
   (fst (setFilter newFilter s) \<noteq> Inr () \<longrightarrow>
      fst (setFilter newFilter s) = Inl InvalidFilter \<and>
      validateFilter newFilter = Inl InvalidFilter \<and>
      filter_state (snd (setFilter newFilter s)) = filter_state s \<and>
      snd (setFilter newFilter s) =
        s\<lparr>console := console s @ [InvalidFilterArgument InvalidFilter]\<rparr>) \<and>
   tasks_state (snd (setFilter newFilter s)) = tasks_state s"
  using validateFilter_cases [of newFilter] validateFilter_iff [of newFilter]
  by (auto simp: setFilter_def setFilterState_def write_entry_frame)

theorem setFilter_validates_witness:
  "fst (setFilter (JStr (js ''completed'')) sample_store) = Inr () \<and>
   filter_state (snd (setFilter (JStr (js ''completed'')) sample_store)) = JStr (js ''completed'') \<and>
   fst (setFilter (JStr (js ''bogus'')) sample_store) = Inl InvalidFilter \<and>
   filter_state (snd (setFilter (JStr (js ''bogus'')) sample_store)) = JStr (js ''all'')"
  using setFilter_validates [of "JStr (js ''completed'')" sample_store]
    setFilter_validates [of "JStr (js ''bogus'')" sample_store]
  by (simp add: js_def ch_def sample_store_simps)

lemma setTasks_by_frame:
  "filter_state (snd (setTasks_by u s)) = filter_state s"
  "persisted (snd (setTasks_by u s)) ''filter'' = persisted s ''filter''"
  "entropy (snd (setTasks_by u s)) = entropy s"
  by (simp_all add: setTasks_by_def setTasks_def write_entry_frame split: sum.splits)

lemma validatedFilter_cong:
  "filter_state s' = filter_state s \<Longrightarrow> fst (validatedFilter s') = fst (validatedFilter s)"
  by (simp add: validatedFilter_def split: sum.splits)

lemma validatedTasks_cong:
  "tasks_state s' = tasks_state s \<Longrightarrow> fst (validatedTasks s') = fst (validatedTasks s)"
  by (simp add: validatedTasks_def split: sum.splits)

lemma addTask_frame:
  "filter_state (snd (addTask title s)) = filter_state s"
  "persisted (snd (addTask title s)) ''filter'' = persisted s ''filter''"
  by (simp_all add: addTask_def setTasks_by_frame split: prod.splits sum.splits)

text \<open>
  Claim C9. Frame property, for every state of the store: a successful \<open>setFilter\<close>
  leaves the task collection as it was (in memory, in the persisted entry, and as
  exposed); \<open>addTask\<close>, \<open>toggleTaskCompletion\<close> and \<open>deleteTask\<close> leave
  the filter as it was (in memory, in the persisted entry, and as exposed).
\<close>

theorem operations_frame:
  "(fst (setFilter newFilter s) = Inr () \<longrightarrow>
      tasks_state (snd (setFilter newFilter s)) = tasks_state s \<and>
      persisted (snd (setFilter newFilter s)) ''tasks'' = persisted s ''tasks'' \<and>
      fst (validatedTasks (snd (setFilter newFilter s))) = fst (validatedTasks s)) \<and>
   (filter_state (snd (addTask title s)) = filter_state s \<and>
    persisted (snd (addTask title s)) ''filter'' = persisted s ''filter'' \<and>
    fst (validatedFilter (snd (addTask title s))) = fst (validatedFilter s)) \<and>
   (filter_state (snd (toggleTaskCompletion ident s)) = filter_state s \<and>
    persisted (snd (toggleTaskCompletion ident s)) ''filter'' = persisted s ''filter'' \<and>
    fst (validatedFilter (snd (toggleTaskCompletion ident s))) = fst (validatedFilter s)) \<and>
   (filter_state (snd (deleteTask ident s)) = filter_state s \<and>
    persisted (snd (deleteTask ident s)) ''filter'' = persisted s ''filter'' \<and>
    fst (validatedFilter (snd (deleteTask ident s))) = fst (validatedFilter s))"
proof -
  have sf: "tasks_state (snd (setFilter newFilter s)) = tasks_state s"
    "persisted (snd (setFilter newFilter s)) ''tasks'' = persisted s ''tasks''"
    by (simp_all add: setFilter_def setFilterState_def write_entry_frame split: sum.splits)
  have ad: "filter_state (snd (addTask title s)) = filter_state s"
    "persisted (snd (addTask title s)) ''filter'' = persisted s ''filter''"
    by (rule addTask_frame)+
  have tg: "filter_state (snd (toggleTaskCompletion ident s)) = filter_state s"
    "persisted (snd (toggleTaskCompletion ident s)) ''filter'' = persisted s ''filter''"
    by (simp_all add: toggleTaskCompletion_def setTasks_by_frame)
  have dl: "filter_state (snd (deleteTask ident s)) = filter_state s"
    "persisted (snd (deleteTask ident s)) ''filter'' = persisted s ''filter''"
    by (simp_all add: deleteTask_def setTasks_by_frame)
  show ?thesis
    using sf ad tg dl validatedTasks_cong [OF sf(1)] validatedFilter_cong [OF ad(1)]
      validatedFilter_cong [OF tg(1)] validatedFilter_cong [OF dl(1)]
    by simp
qed

theorem operations_frame_witness:
  "fst (setFilter (JStr (js ''pending'')) sample_store) = Inr () \<and>
   tasks_state (snd (setFilter (JStr (js ''pending'')) sample_store)) =
     JArr [sample_task1, sample_task2]"
proof -
  have "fst (setFilter (JStr (js ''pending'')) sample_store) = Inr ()"
    by (simp add: setFilter_def validateFilter_iff [THEN iffD2])
  then show ?thesis
    using operations_frame [of "JStr (js ''pending'')" sample_store]
    by (simp add: sample_store_simps)
qed


subsection \<open>Toggling and deleting in a valid collection\<close>

lemma setTasks_simps:
  "tasks_state (setTasks v s) = v"
  "filter_state (setTasks v s) = filter_state s"
  "writable (setTasks v s) = writable s"
  "setItem_calls (setTasks v s) = setItem_calls s @ [(''tasks'', v)]"
  "persisted (setTasks v s) ''tasks'' = (if writable s then Some v else persisted s ''tasks'')"
  "persisted (setTasks v s) ''filter'' = persisted s ''filter''"
  by (simp_all add: setTasks_def write_entry_def Let_def)

lemma setFilterState_simps:
  "filter_state (setFilterState v s) = v"
  "tasks_state (setFilterState v s) = tasks_state s"
  "writable (setFilterState v s) = writable s"
  "setItem_calls (setFilterState v s) = setItem_calls s @ [(''filter'', v)]"
  "persisted (setFilterState v s) ''filter'' = (if writable s then Some v else persisted s ''filter'')"
  "persisted (setFilterState v s) ''tasks'' = persisted s ''tasks''"
  by (simp_all add: setFilterState_def write_entry_def Let_def)

lemma valid_array_map:
  assumes "validateTasksArray v = Inr True"
  shows "array_map (toggle_task ident) v =
           Inr (JArr (map (\<lambda>t. if strict_eq (field t ''id'') ident then flipped t else t) (elements v)))"
proof -
  from assms have v: "v = JArr (elements v)" and ok: "\<forall>t \<in> set (elements v). validateTask t = Inr True"
    using valid_tasks_elements by blast+
  have "map_each (toggle_task ident) (elements v) =
      Inr (map (\<lambda>t. if strict_eq (field t ''id'') ident then flipped t else t) (elements v))"
    by (rule map_each_total) (simp add: ok toggle_task_valid)
  then show ?thesis
    by (subst v) (simp add: array_map_def and_then_def)
qed

lemma keep_task_valid:
  assumes "validateTask t = Inr True"
  shows "keep_task ident t = Inr (\<not> strict_eq (field t ''id'') ident)"
proof -
  from assms obtain ps where "t = JObj ps" by (rule valid_task_shape)
  then show ?thesis by (simp add: keep_task_def get_prop_obj and_then_def field_obj)
qed

lemma valid_array_filter:
  assumes "validateTasksArray v = Inr True"
  shows "array_filter (keep_task ident) v =
           Inr (JArr (filter (\<lambda>t. \<not> strict_eq (field t ''id'') ident) (elements v)))"
proof -
  from assms have v: "v = JArr (elements v)" and ok: "\<forall>t \<in> set (elements v). validateTask t = Inr True"
    using valid_tasks_elements by blast+
  have "filter_each (keep_task ident) (elements v) =
      Inr (filter (\<lambda>t. \<not> strict_eq (field t ''id'') ident) (elements v))"
    by (rule filter_each_total) (simp add: ok keep_task_valid)
  then show ?thesis
    by (subst v) (simp add: array_filter_def and_then_def)
qed

lemma validateTasksArray_JArr:
  "validateTasksArray (JArr ts) = Inr True \<longleftrightarrow> (\<forall>t \<in> set ts. validateTask t = Inr True)"
  by (simp add: validateTasksArray_Inr)

lemma elements_JArr: "elements (JArr xs) = xs"
  by (simp add: elements_def)

lemma toggle_valid:
  assumes "validateTasksArray (tasks_state s) = Inr True"
  shows "fst (toggleTaskCompletion ident s) = Inr ()"
    and "tasks_state (snd (toggleTaskCompletion ident s)) =
           JArr (map (\<lambda>t. if strict_eq (field t ''id'') ident then flipped t else t)
                   (elements (tasks_state s)))"
    and "validateTasksArray (tasks_state (snd (toggleTaskCompletion ident s))) = Inr True"
proof -
  show 1: "fst (toggleTaskCompletion ident s) = Inr ()"
    and 2: "tasks_state (snd (toggleTaskCompletion ident s)) =
           JArr (map (\<lambda>t. if strict_eq (field t ''id'') ident then flipped t else t)
                   (elements (tasks_state s)))"
    by (simp_all add: toggleTaskCompletion_def setTasks_by_def valid_array_map [OF assms] setTasks_simps)
  from assms have "\<forall>t \<in> set (elements (tasks_state s)). validateTask t = Inr True"
    using valid_tasks_elements by blast
  then show "validateTasksArray (tasks_state (snd (toggleTaskCompletion ident s))) = Inr True"
    unfolding 2 validateTasksArray_JArr by (auto simp: flipped_valid)
qed

lemma delete_valid:
  assumes "validateTasksArray (tasks_state s) = Inr True"
  shows "fst (deleteTask ident s) = Inr ()"
    and "tasks_state (snd (deleteTask ident s)) =
           JArr (filter (\<lambda>t. \<not> strict_eq (field t ''id'') ident) (elements (tasks_state s)))"
    and "validateTasksArray (tasks_state (snd (deleteTask ident s))) = Inr True"
proof -
  show 1: "fst (deleteTask ident s) = Inr ()"
    and 2: "tasks_state (snd (deleteTask ident s)) =
           JArr (filter (\<lambda>t. \<not> strict_eq (field t ''id'') ident) (elements (tasks_state s)))"
    by (simp_all add: deleteTask_def setTasks_by_def valid_array_filter [OF assms] setTasks_simps)
  from assms have "\<forall>t \<in> set (elements (tasks_state s)). validateTask t = Inr True"
    using valid_tasks_elements by blast
  then show "validateTasksArray (tasks_state (snd (deleteTask ident s))) = Inr True"
    unfolding 2 validateTasksArray_JArr by auto
qed

lemma flip_twice_map:
  assumes "\<forall>t \<in> set ts. validateTask t = Inr True"
  shows "map (\<lambda>t. if strict_eq (field t ''id'') ident then flipped t else t)
           (map (\<lambda>t. if strict_eq (field t ''id'') ident then flipped t else t) ts) = ts"
  using assms by (induction ts) (simp_all add: flipped_valid)

lemma sample_ids_valid:
  "isValidUUID (JStr (js ''123e4567-e89b-42d3-a456-426614174000''))"
  "isValidUUID (JStr (js ''987fcdeb-51d2-43e1-b789-123456789abc''))"
  by (simp_all add: isValidUUID_def regex_is_layout uuid_v4_shaped_def uuid_v4_layout_slots
      js_def ch_def)

lemma sample_titles_valid:
  "validateTaskTitle (JStr (js ''Task 1'')) = Inr (js ''Task 1'')"
  "validateTaskTitle (JStr (js ''Task 2'')) = Inr (js ''Task 2'')"
  by (simp_all add: validateTaskTitle_def trim_def is_space_def js_def ch_def)

lemma sample_tasks_valid: "validateTasksArray (JArr [sample_task1, sample_task2]) = Inr True"
  by (simp add: validateTasksArray_JArr sample_task1_def sample_task2_def validateTask_obj_iff
      field_obj key_facts key_facts [symmetric] sample_ids_valid sample_titles_valid)
     (auto simp: js_def)

lemma sample_fields:
  "field sample_task1 ''id'' = JStr (js ''123e4567-e89b-42d3-a456-426614174000'')"
  "field sample_task2 ''id'' = JStr (js ''987fcdeb-51d2-43e1-b789-123456789abc'')"
  "field sample_task1 ''completed'' = JBool False"
  "field sample_task2 ''completed'' = JBool True"
  by (simp_all add: sample_task1_def sample_task2_def field_obj key_facts key_facts [symmetric])

lemma id1_not_id2:
  "js ''123e4567-e89b-42d3-a456-426614174000'' \<noteq> js ''987fcdeb-51d2-43e1-b789-123456789abc''"
  by (simp add: js_def ch_def)

text \<open>
  Claim C5. Toggling twice restores the collection: for every task collection and every
  argument \<open>id\<close>, two successive calls of \<open>toggleTaskCompletion(id)\<close> both
  return normally and leave a collection equal to the original. After the first call
  the collection has the same length, each task whose id is strictly equal to the
  argument has its \<open>completed\<close> flag negated, and every other task is the task it
  was; if no task matches, the first call already leaves the collection unchanged.
\<close>

theorem toggle_twice_restores:
  assumes "validateTasksArray (tasks_state s) = Inr True"
  shows "fst (toggleTaskCompletion ident s) = Inr () \<and>
    fst (toggleTaskCompletion ident (snd (toggleTaskCompletion ident s))) = Inr () \<and>
    tasks_state (snd (toggleTaskCompletion ident (snd (toggleTaskCompletion ident s)))) =
      tasks_state s \<and>
    length (elements (tasks_state (snd (toggleTaskCompletion ident s)))) =
      length (elements (tasks_state s)) \<and>
    (\<forall>k < length (elements (tasks_state s)).
       if strict_eq (field (elements (tasks_state s) ! k) ''id'') ident
       then field (elements (tasks_state (snd (toggleTaskCompletion ident s))) ! k) ''completed'' =
              JBool (\<not> truthy (field (elements (tasks_state s) ! k) ''completed''))
       else elements (tasks_state (snd (toggleTaskCompletion ident s))) ! k =
              elements (tasks_state s) ! k) \<and>
    ((\<forall>t \<in> set (elements (tasks_state s)). \<not> strict_eq (field t ''id'') ident) \<longrightarrow>
       tasks_state (snd (toggleTaskCompletion ident s)) = tasks_state s)"
proof -
  let ?s1 = "snd (toggleTaskCompletion ident s)"
  let ?f = "\<lambda>t. if strict_eq (field t ''id'') ident then flipped t else t"
  from assms have v: "tasks_state s = JArr (elements (tasks_state s))"
    and ok: "\<forall>t \<in> set (elements (tasks_state s)). validateTask t = Inr True"
    using valid_tasks_elements by blast+
  note t1 = toggle_valid [OF assms, of ident]
  note t2 = toggle_valid [OF t1(3), of ident]
  have e1: "elements (tasks_state ?s1) = map ?f (elements (tasks_state s))"
    by (simp add: t1(2) elements_JArr)
  have "tasks_state (snd (toggleTaskCompletion ident ?s1)) =
      JArr (map ?f (map ?f (elements (tasks_state s))))"
    by (simp only: t2(2) e1)
  also have "\<dots> = tasks_state s"
    by (simp only: flip_twice_map [OF ok]) (rule v [symmetric])
  finally have twice: "tasks_state (snd (toggleTaskCompletion ident ?s1)) = tasks_state s" .
  have each: "\<forall>k < length (elements (tasks_state s)).
       if strict_eq (field (elements (tasks_state s) ! k) ''id'') ident
       then field (elements (tasks_state ?s1) ! k) ''completed'' =
              JBool (\<not> truthy (field (elements (tasks_state s) ! k) ''completed''))
       else elements (tasks_state ?s1) ! k = elements (tasks_state s) ! k"
    using ok by (simp add: e1 flipped_valid)
  have none: "(\<forall>t \<in> set (elements (tasks_state s)). \<not> strict_eq (field t ''id'') ident) \<longrightarrow>
       tasks_state ?s1 = tasks_state s"
  proof
    assume "\<forall>t \<in> set (elements (tasks_state s)). \<not> strict_eq (field t ''id'') ident"
    then have "map ?f (elements (tasks_state s)) = elements (tasks_state s)"
      by (simp add: map_idI)
    then show "tasks_state ?s1 = tasks_state s"
      using v by (simp add: t1(2))
  qed
  show ?thesis
    using t1(1) t2(1) twice each none by (simp add: e1)
qed

theorem toggle_twice_restores_witness:
  "validateTasksArray (tasks_state sample_store) = Inr True \<and>
   tasks_state (snd (toggleTaskCompletion (JStr (js ''123e4567-e89b-42d3-a456-426614174000''))
     (snd (toggleTaskCompletion (JStr (js ''123e4567-e89b-42d3-a456-426614174000'')) sample_store)))) =
     JArr [sample_task1, sample_task2] \<and>
   field (elements (tasks_state (snd (toggleTaskCompletion
     (JStr (js ''123e4567-e89b-42d3-a456-426614174000'')) sample_store))) ! 0) ''completed'' = JBool True \<and>
   elements (tasks_state (snd (toggleTaskCompletion
     (JStr (js ''123e4567-e89b-42d3-a456-426614174000'')) sample_store))) ! 1 = sample_task2"
proof -
  have v: "validateTasksArray (tasks_state sample_store) = Inr True"
    by (simp add: sample_store_simps sample_tasks_valid)
  have m: "strict_eq (field sample_task1 ''id'') (JStr (js ''123e4567-e89b-42d3-a456-426614174000''))"
    "\<not> strict_eq (field sample_task2 ''id'') (JStr (js ''123e4567-e89b-42d3-a456-426614174000''))"
    using id1_not_id2 by (auto simp add: sample_fields strict_eq_def)
  from toggle_twice_restores [OF v, of "JStr (js ''123e4567-e89b-42d3-a456-426614174000'')"]
  show ?thesis
    using v m by (simp add: sample_store_simps elements_JArr sample_fields All_less_Suc numeral_2_eq_2)
qed

lemma strict_eq_string: "strict_eq (JStr a) v \<longleftrightarrow> v = JStr a"
  by (cases v) (auto simp: strict_eq_def)

lemma valid_task_id_string:
  assumes "validateTask t = Inr True"
  shows "\<exists>i. field t ''id'' = JStr i"
proof -
  from assms obtain ps i where "t = JObj ps" "map_of ps (js ''id'') = Some (JStr i)"
    by (rule valid_task_shape)
  then show ?thesis by (simp add: field_obj)
qed

text \<open>
  Claim C10. Totality of toggle and delete: for every argument value (a string or not,
  \<open>null\<close>, \<open>undefined\<close>) and every task collection, \<open>toggleTaskCompletion\<close>
  and \<open>deleteTask\<close> return normally. Toggling keeps the length and leaves every task
  whose id is not strictly equal to the argument as it was; deleting leaves exactly the
  tasks whose id is not strictly equal to the argument, in their order. An argument that
  is not a string matches no task, so both leave the collection as it was.
\<close>

theorem toggle_delete_total:
  assumes "validateTasksArray (tasks_state s) = Inr True"
  shows "fst (toggleTaskCompletion ident s) = Inr () \<and>
    fst (deleteTask ident s) = Inr () \<and>
    length (elements (tasks_state (snd (toggleTaskCompletion ident s)))) =
      length (elements (tasks_state s)) \<and>
    (\<forall>k < length (elements (tasks_state s)).
       \<not> strict_eq (field (elements (tasks_state s) ! k) ''id'') ident \<longrightarrow>
       elements (tasks_state (snd (toggleTaskCompletion ident s))) ! k =
         elements (tasks_state s) ! k) \<and>
    tasks_state (snd (deleteTask ident s)) =
      JArr (filter (\<lambda>t. \<not> strict_eq (field t ''id'') ident) (elements (tasks_state s))) \<and>
    (typeof ident \<noteq> TString \<longrightarrow>
       tasks_state (snd (toggleTaskCompletion ident s)) = tasks_state s \<and>
       tasks_state (snd (deleteTask ident s)) = tasks_state s)"
proof -
  let ?f = "\<lambda>t. if strict_eq (field t ''id'') ident then flipped t else t"
  from assms have v: "tasks_state s = JArr (elements (tasks_state s))"
    and ok: "\<forall>t \<in> set (elements (tasks_state s)). validateTask t = Inr True"
    using valid_tasks_elements by blast+
  note t = toggle_valid [OF assms, of ident]
  note d = delete_valid [OF assms, of ident]
  have e: "elements (tasks_state (snd (toggleTaskCompletion ident s))) =
      map ?f (elements (tasks_state s))"
    by (simp add: t(2) elements_JArr)
  have other: "typeof ident \<noteq> TString \<longrightarrow>
       tasks_state (snd (toggleTaskCompletion ident s)) = tasks_state s \<and>
       tasks_state (snd (deleteTask ident s)) = tasks_state s"
  proof
    assume n: "typeof ident \<noteq> TString"
    have no: "\<forall>t \<in> set (elements (tasks_state s)). \<not> strict_eq (field t ''id'') ident"
    proof
      fix t assume "t \<in> set (elements (tasks_state s))"
      with ok obtain i where "field t ''id'' = JStr i"
        using valid_task_id_string by blast
      with n show "\<not> strict_eq (field t ''id'') ident"
        by (auto simp: strict_eq_string)
    qed
    then have "map ?f (elements (tasks_state s)) = elements (tasks_state s)"
      "filter (\<lambda>t. \<not> strict_eq (field t ''id'') ident) (elements (tasks_state s)) =
         elements (tasks_state s)"
      by (simp_all add: map_idI)
    then show "tasks_state (snd (toggleTaskCompletion ident s)) = tasks_state s \<and>
       tasks_state (snd (deleteTask ident s)) = tasks_state s"
      using v by (simp add: t(2) d(2))
  qed
  show ?thesis
    using t(1) d(1) d(2) other by (simp add: e)
qed

theorem toggle_delete_total_witness:
  "validateTasksArray (tasks_state sample_store) = Inr True \<and>
   fst (toggleTaskCompletion JNull sample_store) = Inr () \<and>
   fst (deleteTask JUndefined sample_store) = Inr () \<and>
   tasks_state (snd (deleteTask JUndefined sample_store)) = JArr [sample_task1, sample_task2] \<and>
   tasks_state (snd (deleteTask (JStr (js ''123e4567-e89b-42d3-a456-426614174000'')) sample_store)) =
     JArr [sample_task2] \<and>
   elements (tasks_state (snd (toggleTaskCompletion
     (JStr (js ''123e4567-e89b-42d3-a456-426614174000'')) sample_store))) ! 1 = sample_task2"
proof -
  have v: "validateTasksArray (tasks_state sample_store) = Inr True"
    by (simp add: sample_store_simps sample_tasks_valid)
  have m: "strict_eq (field sample_task1 ''id'') (JStr (js ''123e4567-e89b-42d3-a456-426614174000''))"
    "\<not> strict_eq (field sample_task2 ''id'') (JStr (js ''123e4567-e89b-42d3-a456-426614174000''))"
    using id1_not_id2 by (auto simp add: sample_fields strict_eq_def)
  show ?thesis
    using v m toggle_delete_total [OF v, of JNull] toggle_delete_total [OF v, of JUndefined]
      toggle_delete_total [OF v, of "JStr (js ''123e4567-e89b-42d3-a456-426614174000'')"]
    by (simp add: sample_store_simps elements_JArr sample_fields strict_eq_def)
qed

subsection \<open>The filtered view\<close>

lemma valid_task_completed:
  assumes "validateTask t = Inr True"
  shows "\<exists>c. field t ''completed'' = JBool c" "get_prop t (js ''completed'') = Inr (field t ''completed'')"
proof -
  from assms obtain ps c where "t = JObj ps" "map_of ps (js ''completed'') = Some (JBool c)"
    by (rule valid_task_shape)
  then show "\<exists>c. field t ''completed'' = JBool c" "get_prop t (js ''completed'') = Inr (field t ''completed'')"
    by (simp_all add: field_obj get_prop_obj)
qed

lemma filteredTasks_valid:
  assumes "validateTasksArray tasks = Inr True"
  shows "filteredTasks tasks (JStr (js ''completed'')) =
           Inr (JArr (filter (\<lambda>t. field t ''completed'' = JBool True) (elements tasks)))"
    and "filteredTasks tasks (JStr (js ''pending'')) =
           Inr (JArr (filter (\<lambda>t. field t ''completed'' = JBool False) (elements tasks)))"
    and "filteredTasks tasks (JStr (js ''all'')) = Inr tasks"
proof -
  from assms have v: "tasks = JArr (elements tasks)"
    and ok: "\<forall>t \<in> set (elements tasks). validateTask t = Inr True"
    using valid_tasks_elements by blast+
  have c: "\<forall>t \<in> set (elements tasks).
      and_then (get_prop t (js ''completed'')) (\<lambda>c. Inr (truthy c)) = Inr (field t ''completed'' = JBool True)"
  proof
    fix t assume "t \<in> set (elements tasks)"
    with ok have "validateTask t = Inr True" by simp
    from valid_task_completed [OF this]
    show "and_then (get_prop t (js ''completed'')) (\<lambda>c. Inr (truthy c)) = Inr (field t ''completed'' = JBool True)"
      by (auto simp: and_then_def)
  qed
  have p: "\<forall>t \<in> set (elements tasks).
      and_then (get_prop t (js ''completed'')) (\<lambda>c. Inr (\<not> truthy c)) = Inr (field t ''completed'' = JBool False)"
  proof
    fix t assume "t \<in> set (elements tasks)"
    with ok have "validateTask t = Inr True" by simp
    from valid_task_completed [OF this]
    show "and_then (get_prop t (js ''completed'')) (\<lambda>c. Inr (\<not> truthy c)) = Inr (field t ''completed'' = JBool False)"
      by (auto simp: and_then_def)
  qed
  have ne: "js ''pending'' \<noteq> js ''completed''" "js ''all'' \<noteq> js ''completed''" "js ''all'' \<noteq> js ''pending''"
    by (simp_all add: js_def ch_def)
  show "filteredTasks tasks (JStr (js ''completed'')) =
           Inr (JArr (filter (\<lambda>t. field t ''completed'' = JBool True) (elements tasks)))"
    by (subst v)
      (simp add: filteredTasks_def array_filter_def
        filter_each_total [OF c, unfolded and_then_def] and_then_def)
  show "filteredTasks tasks (JStr (js ''pending'')) =
           Inr (JArr (filter (\<lambda>t. field t ''completed'' = JBool False) (elements tasks)))"
    by (subst v)
      (simp add: filteredTasks_def array_filter_def
        filter_each_total [OF p, unfolded and_then_def] and_then_def ne)
  show "filteredTasks tasks (JStr (js ''all'')) = Inr tasks"
    by (simp add: filteredTasks_def ne)
qed

subsection \<open>The load\<close>

lemma validatedTasks_valid: "validateTasksArray (fst (validatedTasks s)) = Inr True"
proof (cases "validateTasksArray (tasks_state s)")
  case (Inl e)
  then show ?thesis by (simp add: validatedTasks_def validateTasksArray_JArr)
next
  case (Inr b)
  then have "validateTasksArray (tasks_state s) = Inr True"
    by (simp add: validateTasksArray_Inr)
  then show ?thesis by (simp add: validatedTasks_def)
qed

lemma validatedFilter_valid: "validateFilter (fst (validatedFilter s)) = Inr True"
proof (cases "validateFilter (filter_state s)")
  case (Inl e)
  then show ?thesis by (simp add: validatedFilter_def validateFilter_iff)
next
  case (Inr b)
  then have "validateFilter (filter_state s) = Inr True"
    using validateFilter_cases [of "filter_state s"] by simp
  then show ?thesis by (simp add: validatedFilter_def)
qed

lemma TaskProvider_parts:
  "ctx_tasks (fst (TaskProvider s)) = fst (validatedTasks s)"
  "ctx_filter (fst (TaskProvider s)) = fst (validatedFilter (snd (validatedTasks s)))"
  "ctx_filteredTasks (fst (TaskProvider s)) =
     filteredTasks (ctx_tasks (fst (TaskProvider s))) (ctx_filter (fst (TaskProvider s)))"
  "snd (TaskProvider s) = snd (validatedFilter (snd (validatedTasks s)))"
  by (simp_all add: TaskProvider_def split: prod.splits)

lemma validatedTasks_keeps_filter:
  "filter_state (snd (validatedTasks s)) = filter_state s"
  "persisted (snd (validatedTasks s)) ''filter'' = persisted s ''filter''"
  "writable (snd (validatedTasks s)) = writable s"
  by (simp_all add: validatedTasks_def setTasks_simps split: sum.splits)

lemma validatedFilter_keeps_tasks:
  "tasks_state (snd (validatedFilter s)) = tasks_state s"
  "persisted (snd (validatedFilter s)) ''tasks'' = persisted s ''tasks''"
  "set (setItem_calls s) \<subseteq> set (setItem_calls (snd (validatedFilter s)))"
  by (auto simp: validatedFilter_def setFilterState_simps split: sum.splits)

lemma TaskProvider_filter: "ctx_filter (fst (TaskProvider s)) = fst (validatedFilter s)"
  by (simp add: TaskProvider_parts(2) validatedFilter_cong [OF validatedTasks_keeps_filter(1)])

lemma TaskProvider_establishes_valid:
  "validateTasksArray (tasks_state (snd (TaskProvider s))) = Inr True"
  "validateFilter (filter_state (snd (TaskProvider s))) = Inr True"
proof -
  have "tasks_state (snd (TaskProvider s)) = fst (validatedTasks s)"
    by (simp add: TaskProvider_parts validatedFilter_keeps_tasks validatedTasks_def setTasks_simps
        split: sum.splits)
  then show "validateTasksArray (tasks_state (snd (TaskProvider s))) = Inr True"
    by (simp add: validatedTasks_valid)
  have "filter_state (snd (TaskProvider s)) = fst (validatedFilter (snd (validatedTasks s)))"
    by (simp add: TaskProvider_parts validatedFilter_def setFilterState_simps split: sum.splits)
  then show "validateFilter (filter_state (snd (TaskProvider s))) = Inr True"
    by (simp add: validatedFilter_valid)
qed

lemma filteredTasks_all_pending:
  assumes "validateTasksArray tasks = Inr True"
  shows "filter (\<lambda>t. field t ''completed'' = JBool False) (elements tasks) =
         filter (\<lambda>t. field t ''completed'' \<noteq> JBool True) (elements tasks)"
proof (rule filter_cong [OF refl])
  fix t assume "t \<in> set (elements tasks)"
  with assms have "validateTask t = Inr True"
    using valid_tasks_elements by blast
  from valid_task_completed(1) [OF this]
  show "(field t ''completed'' = JBool False) = (field t ''completed'' \<noteq> JBool True)"
    by auto
qed

text \<open>
  Claim C2. The filtered view: for every task collection, under the filter
  \<open>completed\<close> the view is exactly the tasks with \<open>completed === true\<close>, in their
  order; under \<open>pending\<close> it is the complementary subsequence, the tasks with
  \<open>completed === false\<close>; under \<open>all\<close> it is the whole collection. The view the
  provider exposes is this function of the exposed collection and filter, which are always
  valid, and a render of a store whose collection and filter are valid leaves the store
  exactly as it was: computing the view changes neither.
\<close>

theorem filteredTasks_view:
  assumes "validateTasksArray tasks = Inr True"
  shows "filteredTasks tasks (JStr (js ''completed'')) =
      Inr (JArr (filter (\<lambda>t. field t ''completed'' = JBool True) (elements tasks))) \<and>
    filteredTasks tasks (JStr (js ''pending'')) =
      Inr (JArr (filter (\<lambda>t. field t ''completed'' = JBool False) (elements tasks))) \<and>
    filter (\<lambda>t. field t ''completed'' = JBool False) (elements tasks) =
      filter (\<lambda>t. field t ''completed'' \<noteq> JBool True) (elements tasks) \<and>
    filteredTasks tasks (JStr (js ''all'')) = Inr tasks \<and>
    ctx_filteredTasks (fst (TaskProvider s)) =
      filteredTasks (ctx_tasks (fst (TaskProvider s))) (ctx_filter (fst (TaskProvider s))) \<and>
    validateTasksArray (ctx_tasks (fst (TaskProvider s))) = Inr True \<and>
    validateFilter (ctx_filter (fst (TaskProvider s))) = Inr True \<and>
    (validateTasksArray (tasks_state s) = Inr True \<and> validateFilter (filter_state s) = Inr True
       \<longrightarrow> snd (TaskProvider s) = s)"
proof -
  have "validateTasksArray (tasks_state s) = Inr True \<and> validateFilter (filter_state s) = Inr True
       \<longrightarrow> snd (TaskProvider s) = s"
    by (simp add: TaskProvider_parts validatedTasks_def validatedFilter_def)
  then show ?thesis
    using filteredTasks_valid [OF assms] filteredTasks_all_pending [OF assms]
    by (simp add: TaskProvider_parts(3) TaskProvider_filter validatedFilter_valid
        TaskProvider_parts(1) validatedTasks_valid)
qed

theorem filteredTasks_view_witness:
  "validateTasksArray (JArr [sample_task1, sample_task2]) = Inr True \<and>
   filteredTasks (JArr [sample_task1, sample_task2]) (JStr (js ''completed'')) =
     Inr (JArr [sample_task2]) \<and>
   filteredTasks (JArr [sample_task1, sample_task2]) (JStr (js ''pending'')) =
     Inr (JArr [sample_task1]) \<and>
   filteredTasks (JArr [sample_task1, sample_task2]) (JStr (js ''all'')) =
     Inr (JArr [sample_task1, sample_task2]) \<and>
   snd (TaskProvider sample_store) = sample_store"
proof -
  have f: "validateFilter (filter_state sample_store) = Inr True"
    by (simp add: sample_store_simps validateFilter_iff)
  show ?thesis
    using filteredTasks_view [OF sample_tasks_valid, of sample_store] f
    by (simp add: sample_store_simps sample_tasks_valid elements_JArr sample_fields)
qed

text \<open>
  Claim C1. Self-healing load. Whenever the loaded task collection fails
  \<open>validateTasksArray\<close>, the provider exposes the empty collection, holds it as
  current, and writes it to the persisted entry \<open>tasks\<close> (the write is handed to the
  backing store, and the entry holds \<open>[]\<close> when the backing store accepts writes).
  Whenever the loaded filter fails \<open>validateFilter\<close>, the same holds with \<open>all\<close>
  and the entry \<open>filter\<close>. The two paths are independent: what is exposed, held and
  persisted for the collection is the same whatever the filter is, and conversely. No
  path throws: the render returns, and the filtered view it computes is a value.
\<close>

theorem self_healing_load:
  "(validateTasksArray (tasks_state s) \<noteq> Inr True \<longrightarrow>
      ctx_tasks (fst (TaskProvider s)) = JArr [] \<and>
      tasks_state (snd (TaskProvider s)) = JArr [] \<and>
      (''tasks'', JArr []) \<in> set (setItem_calls (snd (TaskProvider s))) \<and>
      (writable s \<longrightarrow> persisted (snd (TaskProvider s)) ''tasks'' = Some (JArr []))) \<and>
   (validateFilter (filter_state s) \<noteq> Inr True \<longrightarrow>
      ctx_filter (fst (TaskProvider s)) = JStr (js ''all'') \<and>
      filter_state (snd (TaskProvider s)) = JStr (js ''all'') \<and>
      (''filter'', JStr (js ''all'')) \<in> set (setItem_calls (snd (TaskProvider s))) \<and>
      (writable s \<longrightarrow> persisted (snd (TaskProvider s)) ''filter'' = Some (JStr (js ''all'')))) \<and>
   (validateTasksArray (tasks_state s) = Inr True \<longrightarrow>
      ctx_tasks (fst (TaskProvider s)) = tasks_state s \<and>
      tasks_state (snd (TaskProvider s)) = tasks_state s \<and>
      persisted (snd (TaskProvider s)) ''tasks'' = persisted s ''tasks'') \<and>
   (validateFilter (filter_state s) = Inr True \<longrightarrow>
      ctx_filter (fst (TaskProvider s)) = filter_state s \<and>
      filter_state (snd (TaskProvider s)) = filter_state s \<and>
      persisted (snd (TaskProvider s)) ''filter'' = persisted s ''filter'') \<and>
   (ctx_tasks (fst (TaskProvider (s\<lparr>filter_state := f\<rparr>))) = ctx_tasks (fst (TaskProvider s)) \<and>
    tasks_state (snd (TaskProvider (s\<lparr>filter_state := f\<rparr>))) = tasks_state (snd (TaskProvider s)) \<and>
    persisted (snd (TaskProvider (s\<lparr>filter_state := f\<rparr>))) ''tasks'' =
      persisted (snd (TaskProvider s)) ''tasks'') \<and>
   (ctx_filter (fst (TaskProvider (s\<lparr>tasks_state := t\<rparr>))) = ctx_filter (fst (TaskProvider s)) \<and>
    filter_state (snd (TaskProvider (s\<lparr>tasks_state := t\<rparr>))) = filter_state (snd (TaskProvider s)) \<and>
    persisted (snd (TaskProvider (s\<lparr>tasks_state := t\<rparr>))) ''filter'' =
      persisted (snd (TaskProvider s)) ''filter'') \<and>
   (\<exists>view. ctx_filteredTasks (fst (TaskProvider s)) = Inr view)"
proof -
  have tasks_part: "tasks_state (snd (TaskProvider s)) = tasks_state (snd (validatedTasks s))"
    "persisted (snd (TaskProvider s)) ''tasks'' = persisted (snd (validatedTasks s)) ''tasks''" for s
    by (simp_all add: TaskProvider_parts validatedFilter_keeps_tasks)
  have filter_part: "filter_state (snd (TaskProvider s)) = filter_state (snd (validatedFilter s))"
    "persisted (snd (TaskProvider s)) ''filter'' = persisted (snd (validatedFilter s)) ''filter''" for s
    by (simp_all add: TaskProvider_parts validatedFilter_def validatedTasks_keeps_filter
        setFilterState_simps split: sum.splits)
  have a: "validateTasksArray (tasks_state s) \<noteq> Inr True \<longrightarrow>
      ctx_tasks (fst (TaskProvider s)) = JArr [] \<and>
      tasks_state (snd (TaskProvider s)) = JArr [] \<and>
      (''tasks'', JArr []) \<in> set (setItem_calls (snd (TaskProvider s))) \<and>
      (writable s \<longrightarrow> persisted (snd (TaskProvider s)) ''tasks'' = Some (JArr []))"
  proof
    assume "validateTasksArray (tasks_state s) \<noteq> Inr True"
    then obtain e where e: "validateTasksArray (tasks_state s) = Inl e"
      by (cases "validateTasksArray (tasks_state s)") (auto simp: validateTasksArray_Inr)
    have "(''tasks'', JArr []) \<in> set (setItem_calls (snd (validatedTasks s)))"
      by (simp add: validatedTasks_def e setTasks_simps)
    then have "(''tasks'', JArr []) \<in> set (setItem_calls (snd (TaskProvider s)))"
      using validatedFilter_keeps_tasks(3) [of "snd (validatedTasks s)"]
      by (auto simp: TaskProvider_parts)
    then show "ctx_tasks (fst (TaskProvider s)) = JArr [] \<and>
      tasks_state (snd (TaskProvider s)) = JArr [] \<and>
      (''tasks'', JArr []) \<in> set (setItem_calls (snd (TaskProvider s))) \<and>
      (writable s \<longrightarrow> persisted (snd (TaskProvider s)) ''tasks'' = Some (JArr []))"
      by (simp add: tasks_part TaskProvider_parts(1) validatedTasks_def e setTasks_simps)
  qed
  have b: "validateFilter (filter_state s) \<noteq> Inr True \<longrightarrow>
      ctx_filter (fst (TaskProvider s)) = JStr (js ''all'') \<and>
      filter_state (snd (TaskProvider s)) = JStr (js ''all'') \<and>
      (''filter'', JStr (js ''all'')) \<in> set (setItem_calls (snd (TaskProvider s))) \<and>
      (writable s \<longrightarrow> persisted (snd (TaskProvider s)) ''filter'' = Some (JStr (js ''all'')))"
  proof
    assume "validateFilter (filter_state s) \<noteq> Inr True"
    then have e: "validateFilter (filter_state s) = Inl InvalidFilter"
      using validateFilter_cases [of "filter_state s"] by simp
    then have e': "validateFilter (filter_state (snd (validatedTasks s))) = Inl InvalidFilter"
      by (simp add: validatedTasks_keeps_filter)
    have "(''filter'', JStr (js ''all'')) \<in> set (setItem_calls (snd (TaskProvider s)))"
      by (simp add: TaskProvider_parts(4) validatedFilter_def e' setFilterState_simps)
    then show "ctx_filter (fst (TaskProvider s)) = JStr (js ''all'') \<and>
      filter_state (snd (TaskProvider s)) = JStr (js ''all'') \<and>
      (''filter'', JStr (js ''all'')) \<in> set (setItem_calls (snd (TaskProvider s))) \<and>
      (writable s \<longrightarrow> persisted (snd (TaskProvider s)) ''filter'' = Some (JStr (js ''all'')))"
      by (simp add: filter_part TaskProvider_filter validatedFilter_def e setFilterState_simps)
  qed
  have c: "validateTasksArray (tasks_state s) = Inr True \<longrightarrow>
      ctx_tasks (fst (TaskProvider s)) = tasks_state s \<and>
      tasks_state (snd (TaskProvider s)) = tasks_state s \<and>
      persisted (snd (TaskProvider s)) ''tasks'' = persisted s ''tasks''"
    by (simp add: tasks_part TaskProvider_parts(1) validatedTasks_def)
  have d: "validateFilter (filter_state s) = Inr True \<longrightarrow>
      ctx_filter (fst (TaskProvider s)) = filter_state s \<and>
      filter_state (snd (TaskProvider s)) = filter_state s \<and>
      persisted (snd (TaskProvider s)) ''filter'' = persisted s ''filter''"
    by (simp add: filter_part TaskProvider_filter validatedFilter_def)
  have i1: "ctx_tasks (fst (TaskProvider (s\<lparr>filter_state := f\<rparr>))) = ctx_tasks (fst (TaskProvider s)) \<and>
    tasks_state (snd (TaskProvider (s\<lparr>filter_state := f\<rparr>))) = tasks_state (snd (TaskProvider s)) \<and>
    persisted (snd (TaskProvider (s\<lparr>filter_state := f\<rparr>))) ''tasks'' =
      persisted (snd (TaskProvider s)) ''tasks''"
    by (simp add: tasks_part TaskProvider_parts(1) validatedTasks_def setTasks_simps split: sum.splits)
  have i2: "ctx_filter (fst (TaskProvider (s\<lparr>tasks_state := t\<rparr>))) = ctx_filter (fst (TaskProvider s)) \<and>
    filter_state (snd (TaskProvider (s\<lparr>tasks_state := t\<rparr>))) = filter_state (snd (TaskProvider s)) \<and>
    persisted (snd (TaskProvider (s\<lparr>tasks_state := t\<rparr>))) ''filter'' =
      persisted (snd (TaskProvider s)) ''filter''"
    by (simp add: filter_part TaskProvider_filter validatedFilter_def setFilterState_simps split: sum.splits)
  have "validateTasksArray (ctx_tasks (fst (TaskProvider s))) = Inr True"
    by (simp add: TaskProvider_parts(1) validatedTasks_valid)
  from filteredTasks_valid [OF this]
  have v: "\<exists>view. ctx_filteredTasks (fst (TaskProvider s)) = Inr view"
    using validatedFilter_valid [of s]
    by (auto simp: TaskProvider_parts(3) TaskProvider_filter validateFilter_iff)
  from a b c d i1 i2 v show ?thesis by blast
qed

lemma corrupt_tasks_invalid:
  "validateTasksArray (JArr [JObj [(js ''invalid'', JStr (js ''task''))]]) = Inl (InvalidTaskAt 0 MissingId)"
  by (simp add: validateTasksArray_def validateTask_obj field_obj js_def ch_def)

theorem self_healing_load_witness:
  "validateTasksArray (tasks_state corrupt_store) \<noteq> Inr True \<and>
   validateFilter (filter_state corrupt_store) \<noteq> Inr True \<and>
   ctx_tasks (fst (TaskProvider corrupt_store)) = JArr [] \<and>
   tasks_state (snd (TaskProvider corrupt_store)) = JArr [] \<and>
   persisted (snd (TaskProvider corrupt_store)) ''tasks'' = Some (JArr []) \<and>
   ctx_filter (fst (TaskProvider corrupt_store)) = JStr (js ''all'') \<and>
   filter_state (snd (TaskProvider corrupt_store)) = JStr (js ''all'') \<and>
   persisted (snd (TaskProvider corrupt_store)) ''filter'' = Some (JStr (js ''all''))"
proof -
  have t: "validateTasksArray (tasks_state corrupt_store) \<noteq> Inr True"
    by (simp add: sample_store_simps corrupt_tasks_invalid)
  have f: "validateFilter (filter_state corrupt_store) \<noteq> Inr True"
    by (simp add: sample_store_simps validateFilter_iff js_def ch_def)
  show ?thesis
    using t f self_healing_load [of corrupt_store]
    by (simp add: sample_store_simps)
qed


subsection \<open>The failure kinds of \<open>validateTask\<close>\<close>

lemma has_valid_id_alt:
  "has_valid_id v \<longleftrightarrow>
     truthy (field v ''id'') \<and> typeof (field v ''id'') = TString \<and> isValidUUID (field v ''id'')"
  by (cases "field v ''id''") (auto simp: has_valid_id_def)

lemma missing_id_alt:
  "(\<forall>i. field v ''id'' = JStr i \<longrightarrow> i = []) \<longleftrightarrow>
     \<not> truthy (field v ''id'') \<or> typeof (field v ''id'') \<noteq> TString"
  by (cases "field v ''id''") auto

lemma invalid_id_alt:
  "(\<exists>i. field v ''id'' = JStr i \<and> i \<noteq> [] \<and> \<not> isValidUUID (JStr i)) \<longleftrightarrow>
     truthy (field v ''id'') \<and> typeof (field v ''id'') = TString \<and> \<not> isValidUUID (field v ''id'')"
  by (cases "field v ''id''") auto

lemma validateTaskTitle_not_other:
  "validateTaskTitle t \<noteq> Inl NotAnObject" "validateTaskTitle t \<noteq> Inl MissingId"
  "validateTaskTitle t \<noteq> Inl InvalidId" "validateTaskTitle t \<noteq> Inl InvalidCompletedFlag"
  using validateTaskTitle_kinds [of t] by auto

lemma validateTask_kinds_obj:
  "(validateTask (JObj ps) = Inl MissingId \<longleftrightarrow>
      (\<forall>i. field (JObj ps) ''id'' = JStr i \<longrightarrow> i = [])) \<and>
   (validateTask (JObj ps) = Inl InvalidId \<longleftrightarrow>
      (\<exists>i. field (JObj ps) ''id'' = JStr i \<and> i \<noteq> [] \<and> \<not> isValidUUID (JStr i))) \<and>
   (\<forall>e \<in> {InvalidTitle, EmptyTitle, TitleTooLong}.
      validateTask (JObj ps) = Inl e \<longleftrightarrow>
        has_valid_id (JObj ps) \<and> validateTaskTitle (field (JObj ps) ''title'') = Inl e) \<and>
   (validateTask (JObj ps) = Inl InvalidCompletedFlag \<longleftrightarrow>
      has_valid_id (JObj ps) \<and> (\<exists>t. validateTaskTitle (field (JObj ps) ''title'') = Inr t) \<and>
      typeof (field (JObj ps) ''completed'') \<noteq> TBoolean) \<and>
   (validateTask (JObj ps) = Inr True \<longleftrightarrow>
      has_valid_id (JObj ps) \<and> (\<exists>t. validateTaskTitle (field (JObj ps) ''title'') = Inr t) \<and>
      typeof (field (JObj ps) ''completed'') = TBoolean)"
  unfolding missing_id_alt invalid_id_alt has_valid_id_alt validateTask_obj
  using validateTaskTitle_not_other [of "field (JObj ps) ''title''"]
  by (cases "validateTaskTitle (field (JObj ps) ''title'')") auto

lemma js_Nil_iff: "js s = [] \<longleftrightarrow> s = []"
  by (simp add: js_def)

lemma field_array: "field (JArr xs) ''id'' = JUndefined"
  by (simp add: field_def get_prop_arr)

lemma object_shaped_cases:
  "object_shaped v \<longleftrightarrow> (\<exists>ps. v = JObj ps) \<or> (\<exists>xs. v = JArr xs)"
  by (cases v) (auto simp: object_shaped_def)

lemma sample_task_facts:
  "field empty_id_task ''id'' = JStr []"
  "map_of (own_props empty_id_task) (js ''id'') = Some (JStr [])"
  "field empty_id_task ''title'' = JStr (js ''Task 1'')"
  "field empty_id_task ''completed'' = JBool False"
  "field untitled_task ''id'' = JStr (js ''123e4567-e89b-42d3-a456-426614174000'')"
  "field untitled_task ''title'' = JStr []"
  "field untitled_task ''completed'' = JNum 1"
  "field sample_task1 ''title'' = JStr (js ''Task 1'')"
  "object_shaped empty_id_task" "object_shaped untitled_task" "object_shaped sample_task1"
  by (simp_all add: empty_id_task_def untitled_task_def sample_task1_def field_obj
      object_shaped_def key_facts key_facts [symmetric])

text \<open>
  Claim C4, as stated, fails: a candidate whose \<open>id\<close> is the empty string has an
  \<open>id\<close> that is present and is a string, and that is not UUID-shaped, yet
  \<open>validateTask\<close> fails with \<open>MissingId\<close> and not with \<open>InvalidId\<close>; and a
  candidate with a valid id, an empty title and a \<open>completed\<close> that is not a boolean
  fails with \<open>EmptyTitle\<close>, not with \<open>InvalidCompletedFlag\<close>.
\<close>

theorem validateTask_empty_id_counterexample:
  "validateTask empty_id_task = Inl MissingId \<and>
   map_of (own_props empty_id_task) (js ''id'') \<noteq> None \<and>
   typeof (field empty_id_task ''id'') = TString \<and>
   \<not> isValidUUID (field empty_id_task ''id'') \<and>
   validateTask empty_id_task \<noteq> Inl InvalidId \<and>
   validateTask untitled_task = Inl EmptyTitle \<and>
   typeof (field untitled_task ''completed'') \<noteq> TBoolean"
proof -
  have "validateTask empty_id_task = Inl MissingId"
    unfolding empty_id_task_def validateTask_obj
    by (simp add: sample_task_facts [unfolded empty_id_task_def])
  moreover have "validateTask untitled_task = Inl EmptyTitle"
    unfolding untitled_task_def validateTask_obj
    by (simp add: sample_task_facts [unfolded untitled_task_def] sample_ids_valid
        validateTaskTitle_def trim_def js_Nil_iff)
  moreover have "\<not> isValidUUID (JStr [])"
    by (simp add: isValidUUID_def regex_is_layout uuid_v4_shaped_def uuid_v4_layout_slots)
  ultimately show ?thesis
    by (simp add: sample_task_facts)
qed

text \<open>
  Claim C4, amended. The checks of \<open>validateTask\<close> are made in order and the first
  that fails gives the kind. It fails with \<open>NotAnObject\<close> exactly when the candidate
  is \<open>null\<close> or not of type object; with \<open>MissingId\<close> exactly when the candidate
  is object-shaped and its \<open>id\<close> is absent, not a string, or the empty string; with
  \<open>InvalidId\<close> exactly when it is object-shaped and its \<open>id\<close> is a non-empty
  string that is not UUID-v4-shaped; with a title kind exactly when the id checks pass
  and \<open>validateTaskTitle\<close> fails with that kind on the title; with
  \<open>InvalidCompletedFlag\<close> exactly when the id and title checks pass and
  \<open>completed\<close> is not a boolean; and it succeeds exactly when all checks pass.
\<close>

theorem validateTask_kinds:
  "(validateTask v = Inl NotAnObject \<longleftrightarrow> v = JNull \<or> typeof v \<noteq> TObject) \<and>
   (validateTask v = Inl MissingId \<longleftrightarrow>
      object_shaped v \<and> (\<forall>i. field v ''id'' = JStr i \<longrightarrow> i = [])) \<and>
   (validateTask v = Inl InvalidId \<longleftrightarrow>
      object_shaped v \<and> (\<exists>i. field v ''id'' = JStr i \<and> i \<noteq> [] \<and> \<not> isValidUUID (JStr i))) \<and>
   (\<forall>e \<in> {InvalidTitle, EmptyTitle, TitleTooLong}.
      validateTask v = Inl e \<longleftrightarrow>
        object_shaped v \<and> has_valid_id v \<and> validateTaskTitle (field v ''title'') = Inl e) \<and>
   (validateTask v = Inl InvalidCompletedFlag \<longleftrightarrow>
      object_shaped v \<and> has_valid_id v \<and>
      (\<exists>t. validateTaskTitle (field v ''title'') = Inr t) \<and>
      typeof (field v ''completed'') \<noteq> TBoolean) \<and>
   (validateTask v = Inr True \<longleftrightarrow>
      object_shaped v \<and> has_valid_id v \<and>
      (\<exists>t. validateTaskTitle (field v ''title'') = Inr t) \<and>
      typeof (field v ''completed'') = TBoolean)"
proof (cases "object_shaped v")
  case False
  then have "v = JNull \<or> typeof v \<noteq> TObject" by (auto simp: object_shaped_def)
  then have "validateTask v = Inl NotAnObject" by (rule validateTask_primitive)
  with False show ?thesis by (auto simp: object_shaped_def)
next
  case True
  then have n: "validateTask v \<noteq> Inl NotAnObject" "\<not> (v = JNull \<or> typeof v \<noteq> TObject)"
    by (auto simp: validateTask_not_object object_shaped_def)
  from True consider ps where "v = JObj ps" | xs where "v = JArr xs"
    using object_shaped_cases by blast
  then show ?thesis
  proof cases
    case 1
    show ?thesis
      using validateTask_kinds_obj [of ps] True n unfolding 1 by simp
  next
    case 2
    show ?thesis
      using True unfolding 2 by (simp add: validateTask_array field_array has_valid_id_def)
  qed
qed

theorem validateTask_kinds_witness:
  "validateTask sample_task1 = Inr True \<and>
   validateTask JNull = Inl NotAnObject \<and>
   validateTask (JStr (js ''string'')) = Inl NotAnObject \<and>
   validateTask empty_id_task = Inl MissingId \<and>
   validateTask untitled_task = Inl EmptyTitle"
proof -
  have t: "validateTaskTitle (JStr []) = Inl EmptyTitle"
    by (simp add: validateTaskTitle_def trim_def)
  have i: "has_valid_id sample_task1" "has_valid_id untitled_task"
    by (simp_all add: has_valid_id_def sample_fields sample_task_facts sample_ids_valid js_Nil_iff)
  show ?thesis
    using validateTask_kinds [of sample_task1] validateTask_kinds [of JNull]
      validateTask_kinds [of "JStr (js ''string'')"] validateTask_kinds [of empty_id_task]
      validateTask_kinds [of untitled_task]
    by (simp add: sample_task_facts sample_fields sample_titles_valid t i)
qed

subsection \<open>Identifier generation\<close>

lemma word4_cases:
  fixes v :: "4 word"
  shows "v \<in> {0, 1, 2, 3, 4, 5, 6, 7, 8, 9, 10, 11, 12, 13, 14, 15}"
proof (cases v)
  case (1 n)
  then have "n < 16" by simp
  then have "n \<in> {0, 1, 2, 3, 4, 5, 6, 7, 8, 9, 10, 11, 12, 13, 14, 15}" by (auto, arith)
  then show ?thesis unfolding 1(1) by auto
qed

lemma toString16_hex: "toString16 v \<in> set (js ''0123456789abcdef'')"
  using word4_cases [of v] by (auto simp: toString16_def js_def ch_def)

lemma toString16_variant: "toString16 ((r AND 3) OR 8) \<in> set (js ''89ab'')"
  using word4_cases [of r] by (auto simp: toString16_def js_def ch_def)

lemma toString16_code:
  "unat (toString16 v) = (if unat v < 10 then 48 + unat v else 87 + unat v)"
  using word4_cases [of v] by (auto simp: toString16_def ch_def)

lemma toString16_inj: "toString16 a = toString16 b \<longleftrightarrow> a = b"
proof
  assume "toString16 a = toString16 b"
  then have "unat (toString16 a) = unat (toString16 b)" by simp
  then have "unat a = unat b"
    unfolding toString16_code by (simp split: if_splits)
  then show "a = b" by (simp add: word_unat_eq_iff)
qed simp

lemma replace_template:
  "replace_xy (js ''xxxxxxxx-xxxx-4xxx-yxxx-xxxxxxxxxxxx'') draws k =
     (fill (js ''xxxxxxxx-xxxx-4xxx-yxxx-xxxxxxxxxxxx'') (id_digits draws k), k + 31)"
  by (simp add: js_def ch_inj id_digits_def Let_def eval_nat_numeral)

lemma id_digits_explicit:
  "id_digits draws k =
     [draws k,
      draws (k + 1),
      draws (k + 2),
      draws (k + 3),
      draws (k + 4),
      draws (k + 5),
      draws (k + 6),
      draws (k + 7),
      draws (k + 8),
      draws (k + 9),
      draws (k + 10),
      draws (k + 11),
      draws (k + 12),
      draws (k + 13),
      draws (k + 14),
      (draws (k + 15) AND 3) OR 8,
      draws (k + 16),
      draws (k + 17),
      draws (k + 18),
      draws (k + 19),
      draws (k + 20),
      draws (k + 21),
      draws (k + 22),
      draws (k + 23),
      draws (k + 24),
      draws (k + 25),
      draws (k + 26),
      draws (k + 27),
      draws (k + 28),
      draws (k + 29),
      draws (k + 30)]"
  by (simp add: id_digits_def eval_nat_numeral)

lemma fits_toString16:
  "fits HexDigit (toString16 v)" "fits VariantNibble (toString16 ((r AND 3) OR 8))"
  "fits Hyphen (ch CHR ''-'')" "fits Version4 (ch CHR ''4'')"
  using toString16_hex [of v] toString16_variant [of r] by (auto simp: js_def)

lemma fallback_shaped:
  "uuid_v4_shaped (fill (js ''xxxxxxxx-xxxx-4xxx-yxxx-xxxxxxxxxxxx'') (id_digits draws k))"
  unfolding uuid_v4_shaped_def uuid_v4_layout_slots
  by (simp add: js_def ch_inj id_digits_explicit fits_toString16 del: fits.simps)

lemma fallback_eq_iff:
  "fill (js ''xxxxxxxx-xxxx-4xxx-yxxx-xxxxxxxxxxxx'') (id_digits d k) =
   fill (js ''xxxxxxxx-xxxx-4xxx-yxxx-xxxxxxxxxxxx'') (id_digits d' k') \<longleftrightarrow>
   id_digits d k = id_digits d' k'"
  by (simp add: js_def ch_inj id_digits_explicit toString16_inj)

lemma generateTaskId_fallback:
  assumes "randomUUID e = None"
  shows "generateTaskId e =
    (fill (js ''xxxxxxxx-xxxx-4xxx-yxxx-xxxxxxxxxxxx'') (id_digits (random_draws e) (draws_taken e)),
     e\<lparr>draws_taken := draws_taken e + 31\<rparr>)"
  using assms by (simp add: generateTaskId_def replace_template)

lemma generateTaskId_crypto:
  assumes "randomUUID e = Some f"
  shows "generateTaskId e = (f (uuids_taken e), e\<lparr>uuids_taken := Suc (uuids_taken e)\<rparr>)"
  using assms by (simp add: generateTaskId_def)

lemma generate_ids_fallback:
  assumes "randomUUID e = None"
  shows "generate_ids n e =
    map (\<lambda>a. fill (js ''xxxxxxxx-xxxx-4xxx-yxxx-xxxxxxxxxxxx'')
               (id_digits (random_draws e) (draws_taken e + 31 * a))) [0..<n]"
  using assms
proof (induction n arbitrary: e)
  case 0
  show ?case by simp
next
  case (Suc n)
  let ?e = "e\<lparr>draws_taken := draws_taken e + 31\<rparr>"
  have "randomUUID ?e = None" using Suc.prems by simp
  from Suc.IH [OF this]
  have "generate_ids n ?e =
    map (\<lambda>a. fill (js ''xxxxxxxx-xxxx-4xxx-yxxx-xxxxxxxxxxxx'')
               (id_digits (random_draws e) (draws_taken e + 31 * Suc a))) [0..<n]"
    by (simp add: add.assoc)
  then show ?case
    by (simp add: generateTaskId_fallback [OF Suc.prems] upt_conv_Cons map_Suc_upt [symmetric]
        del: upt_Suc)
qed

lemma generate_ids_crypto:
  assumes "randomUUID e = Some f"
  shows "generate_ids n e = map f [uuids_taken e..<uuids_taken e + n]"
  using assms
proof (induction n arbitrary: e)
  case 0
  show ?case by simp
next
  case (Suc n)
  let ?e = "e\<lparr>uuids_taken := Suc (uuids_taken e)\<rparr>"
  have "randomUUID ?e = Some f" using Suc.prems by simp
  from Suc.IH [OF this]
  have "generate_ids n ?e = map f [Suc (uuids_taken e)..<Suc (uuids_taken e) + n]"
    by simp
  then show ?case
    by (simp add: generateTaskId_crypto [OF Suc.prems] upt_conv_Cons del: upt_Suc)
qed

lemma distinct_map_cong_eq:
  assumes "\<And>x y. f x = f y \<longleftrightarrow> g x = g y"
  shows "distinct (map f xs) \<longleftrightarrow> distinct (map g xs)"
proof (induction xs)
  case Nil
  show ?case by simp
next
  case (Cons x xs)
  have "f x \<in> f ` set xs \<longleftrightarrow> g x \<in> g ` set xs"
    using assms by (auto simp: image_iff)
  with Cons show ?case by simp
qed

lemma fallback_valid:
  "isValidUUID (JStr (fill (js ''xxxxxxxx-xxxx-4xxx-yxxx-xxxxxxxxxxxx'') (id_digits draws k)))"
  by (simp add: isValidUUID_def regex_is_layout fallback_shaped)

text \<open>
  What the program itself settles about the identifiers. Without
  \<open>crypto.randomUUID\<close>, every identifier returned satisfies \<open>isValidUUID\<close>, whatever
  \<open>Math.random\<close> returns: the fallback writes the version nibble 4 and a variant nibble
  among 8, 9, a, b.
\<close>

lemma fallback_ids_valid:
  assumes "randomUUID e = None"
  shows "\<forall>i \<in> set (generate_ids n e). isValidUUID (JStr i)"
  unfolding generate_ids_fallback [OF assms] by (auto simp: fallback_valid)

text \<open>
  The identifiers are a function of the sources and of nothing else: with
  \<open>crypto.randomUUID\<close> they are the values it returns, in order; without it, two calls
  return the same identifier exactly when they compute the same 31 digit values from
  their draws. Whether identifiers repeat is therefore a property of the sources, to
  which the program adds and from which it removes nothing.
\<close>

lemma fallback_ids_distinct_iff:
  assumes "randomUUID e = None"
  shows "distinct (generate_ids n e) \<longleftrightarrow>
    distinct (map (\<lambda>a. id_digits (random_draws e) (draws_taken e + 31 * a)) [0..<n])"
  unfolding generate_ids_fallback [OF assms]
  by (rule distinct_map_cong_eq) (rule fallback_eq_iff)

end
